theory Spec2Isabelle
  imports Complex_Main "HOL-Library.Multiset"
begin

section \<open>Numbers and time\<close>

text \<open>
  Prices, thresholds and percentages are Python floats in the source. They are modelled
  as exact reals: arithmetic is the exact arithmetic the float operations approximate.
  A point in time (a naive UTC \<^verbatim>\<open>datetime\<close>) is an integer count of microseconds on an
  unbounded time line, and a \<^verbatim>\<open>timedelta\<close> is an integer count of microseconds.
\<close>

type_synonym datetime = int

definition timedelta_days :: "int \<Rightarrow> int" where
  "timedelta_days d = d * 86400000000"

text \<open>
  Python 3's built-in \<^verbatim>\<open>round(x, ndigits)\<close> on a float rounds the exact value of \<^verbatim>\<open>x\<close>
  to the nearest multiple of \<open>10 ^ (- ndigits)\<close>; a value exactly half way between two
  multiples goes to the one whose last digit is even.
\<close>

definition round_half_even :: "real \<Rightarrow> int" where
  "round_half_even y =
     (let f = \<lfloor>y\<rfloor>; d = y - of_int f
      in if d < 1 / 2 then f
         else if 1 / 2 < d then f + 1
         else if even f then f else f + 1)"

definition py_round :: "real \<Rightarrow> nat \<Rightarrow> real" where
  "py_round x ndigits = of_int (round_half_even (x * 10 ^ ndigits)) / 10 ^ ndigits"

section \<open>models.py\<close>

record product =
  product_id :: int
  name :: string
  category :: string
  retailer :: string
  base_price :: real
  current_price :: real
  last_updated :: datetime

record watch =
  watch_id :: int
  email :: string
  watch_product_id :: int
  threshold_type :: string
  threshold_value :: real
  created_at :: datetime
  last_notified_at :: "datetime option"

record sale_event =
  sale_id :: int
  sale_product_id :: int
  sale_price :: real
  start_date :: datetime
  end_date :: datetime

text \<open>\<^verbatim>\<open>Product.discount_percent\<close>\<close>

definition discount_percent :: "product \<Rightarrow> real" where
  "discount_percent p =
     (if base_price p \<le> 0 then 0
      else py_round ((1 - current_price p / base_price p) * 100) 1)"

text \<open>\<^verbatim>\<open>Watch.threshold_met\<close>\<close>

definition threshold_met :: "watch \<Rightarrow> product \<Rightarrow> bool" where
  "threshold_met w p =
     (if threshold_type w = ''percent''
      then threshold_value w \<le> discount_percent p
      else current_price p \<le> threshold_value w)"

text \<open>\<^verbatim>\<open>SaleEvent.is_active\<close>, with the clock reading as an argument.\<close>

definition is_active :: "sale_event \<Rightarrow> datetime \<Rightarrow> bool" where
  "is_active s now = (start_date s \<le> now \<and> now \<le> end_date s)"

section \<open>The ambient environment\<close>

text \<open>
  The source reads the wall clock (\<^verbatim>\<open>datetime.utcnow()\<close>), draws random numbers
  (\<^verbatim>\<open>random.random()\<close>, \<^verbatim>\<open>random.uniform\<close>), reads the environment variable
  \<^verbatim>\<open>SENDGRID_API_KEY\<close> and talks to the SendGrid service. The \<open>world\<close> record makes
  these explicit: \<open>clock\<close> and \<open>rand\<close> are the sequences of values the successive
  clock readings and draws return, \<open>ticks\<close> and \<open>draws\<close> count how many were consumed,
  \<open>sg_send\<close> is the behaviour of the mail service (an HTTP status or an exception), and
  \<open>outbox\<close> records every call of \<^verbatim>\<open>send_multi_retailer_notification\<close>, in order.
\<close>

record deal =
  deal_retailer :: string
  deal_current_price :: real
  deal_base_price :: real
  deal_savings :: real
  deal_discount_percent :: real

text \<open>
  The rendered message. The subject line shows the product name and \<open>headline_price\<close>;
  the HTML table and the plain-text body both list one row per element of \<open>body_rows\<close>, in
  that order; the footer quotes the target. The formatting of numbers into text is not
  modelled.
\<close>

record mail_content =
  headline_product :: string
  headline_price :: real
  body_rows :: "deal list"
  retailer_count :: nat
  target_type :: string
  target_value :: real

datatype sg_outcome = Status int | Raised

record notifier_call =
  call_email :: string
  call_product_name :: string
  call_deals :: "deal list"
  call_threshold_type :: string
  call_threshold_value :: real

record world =
  clock :: "nat \<Rightarrow> datetime"
  ticks :: nat
  rand :: "nat \<Rightarrow> real"
  draws :: nat
  sendgrid_api_key :: "string option"
  sg_send :: "string \<Rightarrow> mail_content \<Rightarrow> sg_outcome"
  outbox :: "notifier_call list"

definition utcnow :: "world \<Rightarrow> datetime \<times> world" where
  "utcnow w = (clock w (ticks w), w\<lparr>ticks := Suc (ticks w)\<rparr>)"

definition random :: "world \<Rightarrow> real \<times> world" where
  "random w = (rand w (draws w), w\<lparr>draws := Suc (draws w)\<rparr>)"

text \<open>\<^verbatim>\<open>random.uniform(a, b)\<close> is \<^verbatim>\<open>a + (b - a) * random()\<close>.\<close>

definition uniform :: "real \<Rightarrow> real \<Rightarrow> world \<Rightarrow> real \<times> world" where
  "uniform a b w = (case random w of (u, w') \<Rightarrow> (a + (b - a) * u, w'))"

text \<open>The record store: the three tables, each in query order.\<close>

record db =
  products :: "product list"
  watches :: "watch list"
  sale_events :: "sale_event list"

section \<open>price\_engine.py\<close>

record fluctuation_config =
  min_percent :: real
  max_percent :: real
  sale_chance :: real
  flash_sale_min :: real
  flash_sale_max :: real

definition FLUCTUATION_CONFIG :: fluctuation_config where
  "FLUCTUATION_CONFIG =
     \<lparr>min_percent = - 5, max_percent = 3, sale_chance = 1 / 10,
      flash_sale_min = - 15, flash_sale_max = - 10\<rparr>"

text \<open>The percent change drawn at the start of \<^verbatim>\<open>apply_random_fluctuation\<close>.\<close>

definition draw_percent_change :: "world \<Rightarrow> real \<times> world" where
  "draw_percent_change w =
     (case random w of (u, w1) \<Rightarrow>
        if u < sale_chance FLUCTUATION_CONFIG
        then uniform (flash_sale_min FLUCTUATION_CONFIG) (flash_sale_max FLUCTUATION_CONFIG) w1
        else uniform (min_percent FLUCTUATION_CONFIG) (max_percent FLUCTUATION_CONFIG) w1)"

text \<open>The price after the change and the two bounds, before it is rounded.\<close>

definition clamped_price :: "product \<Rightarrow> real \<Rightarrow> real" where
  "clamped_price p percent_change =
     max (min (current_price p * (1 + percent_change / 100)) (base_price p))
         (base_price p * (1 / 2))"

definition apply_random_fluctuation :: "product \<Rightarrow> world \<Rightarrow> real \<times> world" where
  "apply_random_fluctuation p w =
     (case draw_percent_change w of (percent_change, w') \<Rightarrow>
        (py_round (clamped_price p percent_change) 2, w'))"

text \<open>
  \<^verbatim>\<open>get_active_sale\<close>: the first sale event, in query order, of the product whose
  interval contains the clock reading.
\<close>

definition get_active_sale :: "sale_event list \<Rightarrow> int \<Rightarrow> world \<Rightarrow> sale_event option \<times> world" where
  "get_active_sale sales pid w =
     (case utcnow w of (now, w') \<Rightarrow>
        (find (\<lambda>s. sale_product_id s = pid \<and> start_date s \<le> now \<and> now \<le> end_date s) sales, w'))"

text \<open>
  \<^verbatim>\<open>update_product_price\<close> mutates the product; the model returns the updated product
  with the pair the source returns.
\<close>

definition update_product_price ::
  "sale_event list \<Rightarrow> product \<Rightarrow> world \<Rightarrow> product \<times> (real \<times> bool) \<times> world" where
  "update_product_price sales p w =
     (case get_active_sale sales (product_id p) w of (active_sale, w1) \<Rightarrow>
        (case (case active_sale of
                 Some s \<Rightarrow> (sale_price s, True, w1)
               | None \<Rightarrow> (case apply_random_fluctuation p w1 of (np, w2) \<Rightarrow> (np, False, w2)))
         of (new_price, is_sale_event, w3) \<Rightarrow>
           (case utcnow w3 of (t, w4) \<Rightarrow>
              (p\<lparr>current_price := new_price, last_updated := t\<rparr>, (new_price, is_sale_event), w4))))"

record update_detail =
  upd_product_id :: int
  upd_name :: string
  upd_old_price :: real
  upd_new_price :: real
  upd_is_sale_event :: bool
  upd_discount_percent :: real

record price_summary =
  total :: nat
  sale_events_count :: nat
  random_fluctuations :: nat
  details :: "update_detail list"

text \<open>The loop of \<^verbatim>\<open>update_all_prices\<close> over the products.\<close>

fun update_loop ::
  "sale_event list \<Rightarrow> product list \<Rightarrow> price_summary \<Rightarrow> world \<Rightarrow> product list \<times> price_summary \<times> world" where
  "update_loop sales [] summary w = ([], summary, w)"
| "update_loop sales (p # ps) summary w =
     (let old_price = current_price p in
      case update_product_price sales p w of (p', (new_price, is_sale), w1) \<Rightarrow>
        let summary1 = (if is_sale
                        then summary\<lparr>sale_events_count := sale_events_count summary + 1\<rparr>
                        else summary\<lparr>random_fluctuations := random_fluctuations summary + 1\<rparr>);
            summary2 = summary1\<lparr>details := details summary1 @
                         [\<lparr>upd_product_id = product_id p', upd_name = name p',
                           upd_old_price = old_price, upd_new_price = new_price,
                           upd_is_sale_event = is_sale,
                           upd_discount_percent = discount_percent p'\<rparr>]\<rparr>
        in case update_loop sales ps summary2 w1 of (ps', summary3, w2) \<Rightarrow>
             (p' # ps', summary3, w2))"

definition update_all_prices :: "db \<Rightarrow> world \<Rightarrow> price_summary \<times> db \<times> world" where
  "update_all_prices d w =
     (let summary = \<lparr>total = length (products d), sale_events_count = 0,
                      random_fluctuations = 0, details = []\<rparr>
      in case update_loop (sale_events d) (products d) summary w of (ps', summary', w') \<Rightarrow>
           (summary', d\<lparr>products := ps'\<rparr>, w'))"

section \<open>notifier.py\<close>

text \<open>
  The exceptions of the source that can cross a function boundary: reading an attribute of
  \<^verbatim>\<open>None\<close>, indexing an empty list, and a missing dictionary key.
\<close>

datatype error = AttributeError | IndexError | KeyError

text \<open>
  \<^verbatim>\<open>build_multi_retailer_email\<close>: \<^verbatim>\<open>sorted\<close> is stable, as \<open>sort_key\<close> is, and
  \<^verbatim>\<open>deals_sorted[0]\<close> raises on an empty list.
\<close>

definition build_multi_retailer_email ::
  "string \<Rightarrow> deal list \<Rightarrow> string \<Rightarrow> real \<Rightarrow> error + mail_content" where
  "build_multi_retailer_email product_name deals ttype tvalue =
     (let deals_sorted = sort_key deal_current_price deals
      in case deals_sorted of
           [] \<Rightarrow> Inl IndexError
         | best # _ \<Rightarrow>
             Inr \<lparr>headline_product = product_name,
                  headline_price = deal_current_price best,
                  body_rows = deals_sorted,
                  retailer_count = length deals,
                  target_type = ttype,
                  target_value = tvalue\<rparr>)"

text \<open>
  \<^verbatim>\<open>send_multi_retailer_notification\<close>. Without an API key (unset or empty) nothing is
  rendered or sent and the result is \<^verbatim>\<open>True\<close>. Otherwise the message is built outside the
  \<^verbatim>\<open>try\<close> block, and the block turns every exception of the transport into \<^verbatim>\<open>False\<close>.
\<close>

definition send_multi_retailer_notification ::
  "string \<Rightarrow> string \<Rightarrow> deal list \<Rightarrow> string \<Rightarrow> real \<Rightarrow> world \<Rightarrow> (error + bool) \<times> world" where
  "send_multi_retailer_notification addr product_name deals ttype tvalue w =
     (let w1 = w\<lparr>outbox := outbox w @
                  [\<lparr>call_email = addr, call_product_name = product_name, call_deals = deals,
                    call_threshold_type = ttype, call_threshold_value = tvalue\<rparr>]\<rparr>
      in if sendgrid_api_key w = None \<or> sendgrid_api_key w = Some []
         then (Inr True, w1)
         else case build_multi_retailer_email product_name deals ttype tvalue of
                Inl e \<Rightarrow> (Inl e, w1)
              | Inr content \<Rightarrow>
                  (case sg_send w addr content of
                     Status code \<Rightarrow> (Inr (code = 200 \<or> code = 201 \<or> code = 202), w1)
                   | Raised \<Rightarrow> (Inr False, w1)))"

section \<open>checker.py\<close>

definition NOTIFICATION_COOLDOWN_DAYS :: int where
  "NOTIFICATION_COOLDOWN_DAYS = 3"

text \<open>
  \<^verbatim>\<open>is_cooldown_expired\<close> reads the clock only when the watch has been notified before.
\<close>

definition is_cooldown_expired :: "watch \<Rightarrow> world \<Rightarrow> bool \<times> world" where
  "is_cooldown_expired wt w =
     (case last_notified_at wt of
        None \<Rightarrow> (True, w)
      | Some t \<Rightarrow>
          (let cooldown_end = t + timedelta_days NOTIFICATION_COOLDOWN_DAYS
           in case utcnow w of (now, w') \<Rightarrow> (cooldown_end \<le> now, w')))"

text \<open>
  The reason texts of \<^verbatim>\<open>check_watch\<close>: the empty string, \<^verbatim>\<open>'Threshold not met'\<close>,
  \<^verbatim>\<open>'Cooldown active (notified on ...)'\<close> with the time it quotes, and
  \<^verbatim>\<open>'Ready to notify'\<close>.
\<close>

datatype reason = NoReason | ThresholdNotMet | CooldownActive "datetime option" | ReadyToNotify

text \<open>
  The result dictionary of \<^verbatim>\<open>check_watch\<close>. The key \<^verbatim>\<open>_watch_ref\<close> is present only in a
  result that is ready to notify; it holds the watch object itself, which the model
  identifies by its position in the list of watches.
\<close>

record check_result =
  r_watch_id :: int
  r_email :: string
  r_product_name :: string
  r_product_price :: real
  r_product_base_price :: real
  r_retailer :: string
  r_discount_percent :: real
  r_threshold_type :: string
  r_threshold_value :: real
  r_threshold_met :: bool
  r_cooldown_expired :: bool
  r_should_notify :: bool
  r_reason :: reason
  r_watch_ref :: "nat option"

text \<open>
  The relationship \<^verbatim>\<open>watch.product\<close>: the product whose primary key is the watch's
  \<^verbatim>\<open>product_id\<close>, or \<^verbatim>\<open>None\<close> when there is no such row.
\<close>

definition watch_product :: "product list \<Rightarrow> watch \<Rightarrow> product option" where
  "watch_product ps wt = find (\<lambda>p. product_id p = watch_product_id wt) ps"

definition check_watch ::
  "product list \<Rightarrow> nat \<Rightarrow> watch \<Rightarrow> world \<Rightarrow> (error + check_result) \<times> world" where
  "check_watch ps ref wt w =
     (case watch_product ps wt of
        None \<Rightarrow> (Inl AttributeError, w)
      | Some p \<Rightarrow>
          (let result = \<lparr>r_watch_id = watch_id wt, r_email = email wt,
                         r_product_name = name p, r_product_price = current_price p,
                         r_product_base_price = base_price p, r_retailer = retailer p,
                         r_discount_percent = discount_percent p,
                         r_threshold_type = threshold_type wt,
                         r_threshold_value = threshold_value wt,
                         r_threshold_met = False, r_cooldown_expired = False,
                         r_should_notify = False, r_reason = NoReason,
                         r_watch_ref = None\<rparr>
           in if \<not> threshold_met wt p
              then (Inr (result\<lparr>r_reason := ThresholdNotMet\<rparr>), w)
              else (case is_cooldown_expired wt w of (expired, w') \<Rightarrow>
                      if \<not> expired
                      then (Inr (result\<lparr>r_threshold_met := True,
                                        r_reason := CooldownActive (last_notified_at wt)\<rparr>), w')
                      else (Inr (result\<lparr>r_threshold_met := True, r_cooldown_expired := True,
                                        r_should_notify := True, r_reason := ReadyToNotify,
                                        r_watch_ref := Some ref\<rparr>), w'))))"

text \<open>
  \<^verbatim>\<open>notifications_to_send[key].append(result)\<close> on a \<^verbatim>\<open>defaultdict(list)\<close>: the
  dictionary keeps its keys in the order of their first insertion.
\<close>

type_synonym groups = "((string \<times> string) \<times> check_result list) list"

fun group_append :: "string \<times> string \<Rightarrow> check_result \<Rightarrow> groups \<Rightarrow> groups" where
  "group_append key r [] = [(key, [r])]"
| "group_append key r ((k, rs) # g) =
     (if k = key then (k, rs @ [r]) # g else (k, rs) # group_append key r g)"

text \<open>Step 2 of \<^verbatim>\<open>run_price_check\<close>: the loop over the watches, from position \<open>i\<close> on.\<close>

fun check_loop ::
  "product list \<Rightarrow> nat \<Rightarrow> watch list \<Rightarrow> check_result list \<Rightarrow> groups \<Rightarrow> world \<Rightarrow>
     (error + check_result list \<times> groups) \<times> world" where
  "check_loop ps i [] results g w = (Inr (results, g), w)"
| "check_loop ps i (wt # wts) results g w =
     (case check_watch ps i wt w of
        (Inl e, w') \<Rightarrow> (Inl e, w')
      | (Inr result, w') \<Rightarrow>
          check_loop ps (Suc i) wts (results @ [result])
            (if r_should_notify result
             then group_append (r_email result, r_product_name result) result g
             else g) w')"

text \<open>The deal dictionary that step 3 builds from a check result.\<close>

definition deal_of :: "check_result \<Rightarrow> deal" where
  "deal_of r =
     \<lparr>deal_retailer = r_retailer r,
      deal_current_price = r_product_price r,
      deal_base_price = r_product_base_price r,
      deal_savings = r_product_base_price r - r_product_price r,
      deal_discount_percent = r_discount_percent r\<rparr>"

text \<open>
  The inner loop after a successful send:
  \<^verbatim>\<open>r['_watch_ref'].last_notified_at = datetime.utcnow()\<close> for every result of the group.
  The right-hand side is evaluated first, so the clock is read before the key is looked up.
\<close>

fun stamp_loop ::
  "check_result list \<Rightarrow> watch list \<Rightarrow> world \<Rightarrow> (error + unit) \<times> watch list \<times> world" where
  "stamp_loop [] ws w = (Inr (), ws, w)"
| "stamp_loop (r # rs) ws w =
     (case utcnow w of (t, w') \<Rightarrow>
        (case r_watch_ref r of
           None \<Rightarrow> (Inl KeyError, ws, w')
         | Some i \<Rightarrow> stamp_loop rs (ws[i := (ws ! i)\<lparr>last_notified_at := Some t\<rparr>]) w'))"

text \<open>
  Step 3 of \<^verbatim>\<open>run_price_check\<close>: one call of the notifier per group, in the order of the
  dictionary; \<open>n\<close> is \<^verbatim>\<open>notifications_sent\<close>.
\<close>

fun dispatch_loop ::
  "groups \<Rightarrow> watch list \<Rightarrow> nat \<Rightarrow> world \<Rightarrow> (error + nat) \<times> watch list \<times> world" where
  "dispatch_loop [] ws n w = (Inr n, ws, w)"
| "dispatch_loop (((addr, product_name), triggered) # g) ws n w =
     (let deals = map deal_of triggered
      in case triggered of
           [] \<Rightarrow> (Inl IndexError, ws, w)
         | r0 # _ \<Rightarrow>
             (case send_multi_retailer_notification addr product_name deals
                     (r_threshold_type r0) (r_threshold_value r0) w of
                (Inl e, w1) \<Rightarrow> (Inl e, ws, w1)
              | (Inr success, w1) \<Rightarrow>
                  if success
                  then (case stamp_loop triggered ws w1 of
                          (Inl e, ws', w2) \<Rightarrow> (Inl e, ws', w2)
                        | (Inr _, ws', w2) \<Rightarrow> dispatch_loop g ws' (n + 1) w2)
                  else dispatch_loop g ws n w1))"

record cycle_summary =
  timestamp :: datetime
  price_updates :: price_summary
  watches_checked :: nat
  thresholds_met :: nat
  notifications_sent :: nat
  cycle_details :: "check_result list"

text \<open>
  \<^verbatim>\<open>run_price_check\<close>. The banner reads the clock once; the prices are committed by
  \<^verbatim>\<open>update_all_prices\<close> before the watches are looked at, so they stay when a later step
  raises.
\<close>

definition run_price_check :: "db \<Rightarrow> world \<Rightarrow> (error + cycle_summary) \<times> db \<times> world" where
  "run_price_check d w =
     (case utcnow w of (banner, w0) \<Rightarrow>
     (case update_all_prices d w0 of (price_summary, d1, w1) \<Rightarrow>
     (case check_loop (products d1) 0 (watches d1) [] [] w1 of
        (Inl e, w2) \<Rightarrow> (Inl e, d1, w2)
      | (Inr (results, g), w2) \<Rightarrow>
          (case dispatch_loop g (watches d1) 0 w2 of
             (Inl e, ws, w3) \<Rightarrow> (Inl e, d1\<lparr>watches := ws\<rparr>, w3)
           | (Inr sent, ws, w3) \<Rightarrow>
               (let results' = map (\<lambda>r. r\<lparr>r_watch_ref := None\<rparr>) results;
                    met = length (filter r_threshold_met results')
                in (case utcnow w3 of (ts, w4) \<Rightarrow>
                     (Inr \<lparr>timestamp = ts, price_updates = price_summary,
                           watches_checked = length (watches d1),
                           thresholds_met = met,
                           notifications_sent = sent,
                           cycle_details = results'\<rparr>,
                      d1\<lparr>watches := ws\<rparr>, w4)))))))"

text \<open>
  \<^verbatim>\<open>check_single_product\<close>: the watches of one product, each with its identity, checked in
  query order. The store is returned as the function leaves it.
\<close>

fun check_each ::
  "product list \<Rightarrow> (nat \<times> watch) list \<Rightarrow> check_result list \<Rightarrow> world \<Rightarrow>
     (error + check_result list) \<times> world" where
  "check_each ps [] results w = (Inr results, w)"
| "check_each ps ((i, wt) # rest) results w =
     (case check_watch ps i wt w of
        (Inl e, w') \<Rightarrow> (Inl e, w')
      | (Inr result, w') \<Rightarrow> check_each ps rest (results @ [result]) w')"

definition check_single_product ::
  "db \<Rightarrow> int \<Rightarrow> world \<Rightarrow> (error + check_result list) \<times> db \<times> world" where
  "check_single_product d pid w =
     (let ws = filter (\<lambda>(i, wt). watch_product_id wt = pid) (enumerate 0 (watches d))
      in case check_each (products d) ws [] w of (res, w') \<Rightarrow> (res, d, w'))"

text \<open>
  Rounding half away from zero, as the specification words the rounding of prices; it is
  compared with \<open>py_round\<close> below.
\<close>

definition spec_round_half_away :: "real \<Rightarrow> nat \<Rightarrow> real" where
  "spec_round_half_away x ndigits =
     sgn x * of_int \<lfloor>\<bar>x\<bar> * 10 ^ ndigits + 1 / 2\<rfloor> / 10 ^ ndigits"

section \<open>Notions used in the statements\<close>

text \<open>
  The bounds of a random-driven price: the interval from half the base price to the base
  price with both ends rounded to cents, which is the interval itself when half the base
  price is a whole number of cents.
\<close>

definition random_driven_bounds :: "product \<Rightarrow> bool" where
  "random_driven_bounds p =
     (py_round (base_price p / 2) 2 \<le> current_price p
      \<and> current_price p \<le> py_round (base_price p) 2
      \<and> ((\<exists>k::int. base_price p * 50 = of_int k) \<longrightarrow>
            base_price p / 2 \<le> current_price p \<and> current_price p \<le> base_price p))"

text \<open>
  What one pass of the loop of \<^verbatim>\<open>update_all_prices\<close> does to a product \<open>p\<close>, giving
  \<open>p'\<close> and the entry \<open>u\<close> of the summary.
\<close>

definition price_updated :: "sale_event list \<Rightarrow> product \<Rightarrow> product \<Rightarrow> update_detail \<Rightarrow> bool" where
  "price_updated sales p p' u =
     (product_id p' = product_id p \<and> name p' = name p \<and> category p' = category p
      \<and> retailer p' = retailer p \<and> base_price p' = base_price p
      \<and> upd_old_price u = current_price p \<and> upd_new_price u = current_price p'
      \<and> (upd_is_sale_event u \<longrightarrow>
            (\<exists>s\<in>set sales. sale_product_id s = product_id p \<and> current_price p' = sale_price s))
      \<and> (\<not> upd_is_sale_event u \<and> 0 \<le> base_price p \<longrightarrow> random_driven_bounds p'))"

text \<open>The key under which step 2 of \<^verbatim>\<open>run_price_check\<close> files a result.\<close>

definition group_key :: "check_result \<Rightarrow> string \<times> string" where
  "group_key r = (r_email r, r_product_name r)"

text \<open>
  Whether the notifier reports success for a group: the value of
  \<^verbatim>\<open>send_multi_retailer_notification\<close> on the arguments step 3 passes for it.
\<close>

definition send_succeeds :: "world \<Rightarrow> string \<times> string \<Rightarrow> check_result list \<Rightarrow> bool" where
  "send_succeeds w key grp =
     (case grp of
        [] \<Rightarrow> False
      | r0 # _ \<Rightarrow>
          fst (send_multi_retailer_notification (fst key) (snd key) (map deal_of grp)
                 (r_threshold_type r0) (r_threshold_value r0) w) = Inr True)"

text \<open>
  A result \<open>r\<close> is the diagnostic of the watch \<open>wt\<close> against the products \<open>ps\<close>: the
  watched product exists, the result quotes the watch and the product, its flags say
  whether the threshold was met and the cooldown gate passed, and its reason matches.
\<close>

definition checked :: "product list \<Rightarrow> watch \<Rightarrow> check_result \<Rightarrow> bool" where
  "checked ps wt r =
     (case watch_product ps wt of
        None \<Rightarrow> False
      | Some p \<Rightarrow>
          r_watch_id r = watch_id wt \<and> r_email r = email wt
          \<and> r_product_name r = name p \<and> r_product_price r = current_price p
          \<and> r_product_base_price r = base_price p \<and> r_retailer r = retailer p
          \<and> r_discount_percent r = discount_percent p
          \<and> r_threshold_type r = threshold_type wt
          \<and> r_threshold_value r = threshold_value wt
          \<and> r_threshold_met r = threshold_met wt p
          \<and> r_should_notify r = (r_threshold_met r \<and> r_cooldown_expired r)
          \<and> (r_cooldown_expired r \<longrightarrow> r_threshold_met r)
          \<and> (last_notified_at wt = None \<and> r_threshold_met r \<longrightarrow> r_cooldown_expired r)
          \<and> r_reason r =
               (if \<not> r_threshold_met r then ThresholdNotMet
                else if \<not> r_cooldown_expired r then CooldownActive (last_notified_at wt)
                else ReadyToNotify))"

text \<open>
  The part of the world that a cycle leaves alone: the key, the mail service, the clock
  and the random sequence; the clock position only moves forward.
\<close>

definition same_services :: "world \<Rightarrow> world \<Rightarrow> bool" where
  "same_services w w' =
     (sendgrid_api_key w' = sendgrid_api_key w \<and> sg_send w' = sg_send w
      \<and> clock w' = clock w \<and> rand w' = rand w \<and> ticks w \<le> ticks w')"

text \<open>Filing a list of results, one after the other, as step 2 does.\<close>

definition add_groups :: "check_result list \<Rightarrow> groups \<Rightarrow> groups" where
  "add_groups rs g = fold (\<lambda>r. group_append (r_email r, r_product_name r) r) rs g"

text \<open>
  A watch is stamped between two worlds when it differs from its former self only in
  \<^verbatim>\<open>last_notified_at\<close>, which holds a reading of the clock taken in between.
\<close>

definition stamped :: "world \<Rightarrow> world \<Rightarrow> watch \<Rightarrow> watch \<Rightarrow> bool" where
  "stamped w w' wt wt' =
     (\<exists>m\<in>{ticks w..<ticks w'}. wt' = wt\<lparr>last_notified_at := Some (clock w m)\<rparr>)"

text \<open>The call of the notifier that step 3 makes for a group.\<close>

definition call_of :: "(string \<times> string) \<times> check_result list \<Rightarrow> notifier_call" where
  "call_of kg =
     \<lparr>call_email = fst (fst kg), call_product_name = snd (fst kg),
      call_deals = map deal_of (snd kg),
      call_threshold_type = r_threshold_type (hd (snd kg)),
      call_threshold_value = r_threshold_value (hd (snd kg))\<rparr>"

text \<open>The final clean-up of a result: \<^verbatim>\<open>r.pop('_watch_ref', None)\<close>.\<close>

definition pop_ref :: "check_result \<Rightarrow> check_result" where
  "pop_ref r = r\<lparr>r_watch_ref := None\<rparr>"

section \<open>Example data\<close>

text \<open>
  A small catalog used to instantiate the theorems below: the same console at two
  retailers and a pair of earphones, one subscriber watching the console at both retailers
  and another watching the earphones, and a sale on the console at the first retailer.
\<close>

definition demo_products :: "product list" where
  "demo_products =
     [\<lparr>product_id = 1, name = ''PlayStation 5'', category = ''gaming'', retailer = ''Walmart'',
       base_price = 500, current_price = 450, last_updated = 0\<rparr>,
      \<lparr>product_id = 2, name = ''PlayStation 5'', category = ''gaming'', retailer = ''Target'',
       base_price = 500, current_price = 400, last_updated = 0\<rparr>,
      \<lparr>product_id = 3, name = ''AirPods'', category = ''headphones'', retailer = ''BestBuy'',
       base_price = 200, current_price = 200, last_updated = 0\<rparr>]"

definition demo_watches :: "watch list" where
  "demo_watches =
     [\<lparr>watch_id = 1, email = ''bob@example.com'', watch_product_id = 3,
       threshold_type = ''percent'', threshold_value = 10, created_at = 0,
       last_notified_at = None\<rparr>,
      \<lparr>watch_id = 2, email = ''ann@example.com'', watch_product_id = 2,
       threshold_type = ''absolute'', threshold_value = 350, created_at = 0,
       last_notified_at = None\<rparr>,
      \<lparr>watch_id = 3, email = ''ann@example.com'', watch_product_id = 1,
       threshold_type = ''absolute'', threshold_value = 350, created_at = 0,
       last_notified_at = None\<rparr>]"

definition demo_sales :: "sale_event list" where
  "demo_sales =
     [\<lparr>sale_id = 1, sale_product_id = 1, sale_price = 200, start_date = 0,
       end_date = 1000000\<rparr>]"

definition demo_db :: db where
  "demo_db = \<lparr>products = demo_products, watches = demo_watches, sale_events = demo_sales\<rparr>"

text \<open>
  A world without an API key, and one with a key whose mail service rejects the messages
  to one recipient. Every draw returns 0, so every random-driven price takes the flash-sale
  branch with a change of -15 percent.
\<close>

definition demo_clock :: "nat \<Rightarrow> datetime" where
  "demo_clock n = 500 + int n"

definition demo_rand :: "nat \<Rightarrow> real" where
  "demo_rand n = 0"

definition demo_sg_send :: "string \<Rightarrow> mail_content \<Rightarrow> sg_outcome" where
  "demo_sg_send addr content = (if addr = ''bob@example.com'' then Raised else Status 202)"

definition demo_world :: world where
  "demo_world =
     \<lparr>clock = demo_clock, ticks = 0, rand = demo_rand, draws = 0,
      sendgrid_api_key = None, sg_send = demo_sg_send, outbox = []\<rparr>"

definition demo_world_live :: world where
  "demo_world_live = demo_world\<lparr>sendgrid_api_key := Some ''SG.key''\<rparr>"

text \<open>A product whose lower bound, 1.125, lies half way between two cents.\<close>

definition demo_tie_product :: product where
  "demo_tie_product =
     \<lparr>product_id = 7, name = ''USB Cable'', category = ''accessories'', retailer = ''Target'',
      base_price = 9 / 4, current_price = 5 / 4, last_updated = 0\<rparr>"

text \<open>A store in which a watch refers to a product that has no row.\<close>

definition demo_dangling_db :: db where
  "demo_dangling_db =
     demo_db\<lparr>watches :=
       [\<lparr>watch_id = 9, email = ''cy@example.com'', watch_product_id = 99,
         threshold_type = ''percent'', threshold_value = 10, created_at = 0,
         last_notified_at = None\<rparr>]\<rparr>"

section \<open>Rounding\<close>

lemma round_half_even_near: "\<bar>of_int (round_half_even y) - y\<bar> \<le> 1 / 2"
  unfolding round_half_even_def Let_def
  by (auto simp: abs_le_iff)

lemma round_half_even_mono:
  assumes "x \<le> y" shows "round_half_even x \<le> round_half_even y"
proof -
  have fl: "\<lfloor>x\<rfloor> \<le> \<lfloor>y\<rfloor>" using assms by (rule floor_mono)
  show ?thesis
  proof (cases "\<lfloor>x\<rfloor> = \<lfloor>y\<rfloor>")
    case True
    then show ?thesis using assms
      unfolding round_half_even_def Let_def by auto
  next
    case False
    then have "\<lfloor>x\<rfloor> + 1 \<le> \<lfloor>y\<rfloor>" using fl by linarith
    moreover have "round_half_even x \<le> \<lfloor>x\<rfloor> + 1"
      unfolding round_half_even_def Let_def by auto
    moreover have "\<lfloor>y\<rfloor> \<le> round_half_even y"
      unfolding round_half_even_def Let_def by auto
    ultimately show ?thesis by linarith
  qed
qed

lemma round_half_even_of_int: "round_half_even (of_int k) = k"
  unfolding round_half_even_def Let_def by simp

lemma round_half_even_tie:
  "y - of_int \<lfloor>y\<rfloor> = 1 / 2 \<Longrightarrow> even (round_half_even y)"
  unfolding round_half_even_def Let_def by auto

lemma py_round_near: "\<bar>py_round x 2 - x\<bar> \<le> 1 / 200"
proof -
  have "\<bar>of_int (round_half_even (x * 100)) - x * 100\<bar> \<le> 1 / 2"
    by (rule round_half_even_near)
  then show ?thesis unfolding py_round_def by (simp add: abs_le_iff field_simps)
qed

lemma py_round_mono: "x \<le> y \<Longrightarrow> py_round x n \<le> py_round y n"
  unfolding py_round_def
  by (intro divide_right_mono) (auto intro!: round_half_even_mono mult_right_mono)

lemma py_round_cents: "py_round x 2 * 100 = of_int (round_half_even (x * 100))"
  unfolding py_round_def by simp

lemma py_round_fixed: "x * 10 ^ n = of_int k \<Longrightarrow> py_round x n = x"
  unfolding py_round_def by (simp add: round_half_even_of_int) (simp add: field_simps)

section \<open>The cooldown gate and the threshold evaluator\<close>

text \<open>
  C3. The cooldown gate answers true exactly when the watch was never notified or the clock
  reading is at least three days after the last notification; a watch that was never
  notified always passes.
\<close>

theorem cooldown_gate:
  "(fst (is_cooldown_expired wt w) =
     (last_notified_at wt = None \<or>
      (\<exists>t. last_notified_at wt = Some t \<and> t + timedelta_days 3 \<le> clock w (ticks w))))
   \<and> (last_notified_at wt = None \<longrightarrow> fst (is_cooldown_expired wt w))"
  by (auto simp: is_cooldown_expired_def utcnow_def NOTIFICATION_COOLDOWN_DAYS_def Let_def
      split: option.splits)

theorem cooldown_gate_witness:
  "last_notified_at (demo_watches ! 0) = None
   \<and> fst (is_cooldown_expired (demo_watches ! 0) demo_world)"
  using cooldown_gate [of "demo_watches ! 0" demo_world]
  by (simp add: demo_watches_def)

lemma discount_percent_near:
  assumes "0 < base_price p"
  shows "\<bar>discount_percent p - (1 - current_price p / base_price p) * 100\<bar> \<le> 1 / 20"
    and "\<exists>k::int. discount_percent p = of_int k / 10"
proof -
  let ?x = "(1 - current_price p / base_price p) * 100"
  have dp: "discount_percent p = py_round ?x 1"
    using assms by (simp add: discount_percent_def)
  have "\<bar>of_int (round_half_even (?x * 10)) - ?x * 10\<bar> \<le> 1 / 2"
    by (rule round_half_even_near)
  then show "\<bar>discount_percent p - ?x\<bar> \<le> 1 / 20"
    unfolding dp py_round_def by (simp add: abs_le_iff field_simps)
  show "\<exists>k::int. discount_percent p = of_int k / 10"
    unfolding dp py_round_def by auto
qed

text \<open>
  C4. The threshold evaluator depends on the watch and the product only. A percent watch
  fires exactly when the discount is at least the threshold value, an absolute watch
  exactly when the current price is at most the threshold value. The discount is 0 for a
  base price that is not positive, and otherwise the percentage off the base price rounded
  to one decimal: a multiple of a tenth within a twentieth of the exact percentage.
\<close>

theorem threshold_evaluator:
  "(threshold_type wt = ''percent'' \<longrightarrow>
      threshold_met wt p = (threshold_value wt \<le> discount_percent p))
   \<and> (threshold_type wt = ''absolute'' \<longrightarrow>
      threshold_met wt p = (current_price p \<le> threshold_value wt))
   \<and> discount_percent p =
        (if base_price p \<le> 0 then 0
         else py_round ((1 - current_price p / base_price p) * 100) 1)
   \<and> (0 < base_price p \<longrightarrow>
        \<bar>discount_percent p - (1 - current_price p / base_price p) * 100\<bar> \<le> 1 / 20
        \<and> (\<exists>k::int. discount_percent p = of_int k / 10))"
  using discount_percent_near [of p]
  by (simp add: threshold_met_def discount_percent_def)

theorem threshold_evaluator_witness:
  "threshold_type (demo_watches ! 1) = ''absolute''
   \<and> threshold_type (demo_watches ! 0) = ''percent''
   \<and> 0 < base_price (demo_products ! 1)
   \<and> threshold_met (demo_watches ! 1) (demo_products ! 1) = False
   \<and> threshold_met (demo_watches ! 0) (demo_products ! 1) = True
   \<and> discount_percent (demo_products ! 1) = 20"
proof -
  have r: "py_round 20 (Suc 0) = 20"
    by (simp add: py_round_def round_half_even_def Let_def)
  from threshold_evaluator [of "demo_watches ! 1" "demo_products ! 1"]
    threshold_evaluator [of "demo_watches ! 0" "demo_products ! 1"]
  show ?thesis
    by (simp add: demo_watches_def demo_products_def r)
qed

text \<open>
  C10. Every threshold type other than the string \<open>percent\<close> is treated by the absolute
  rule: the watch fires exactly when the current price is at most the threshold value.
\<close>

theorem absolute_rule_default:
  "threshold_type wt \<noteq> ''percent'' \<Longrightarrow>
     threshold_met wt p = (current_price p \<le> threshold_value wt)"
  by (simp add: threshold_met_def)

theorem absolute_rule_default_witness:
  "''discount'' \<noteq> ''percent''
   \<and> threshold_met ((demo_watches ! 0)\<lparr>threshold_type := ''discount''\<rparr>) (demo_products ! 2) = False"
  using absolute_rule_default [of "(demo_watches ! 0)\<lparr>threshold_type := ''discount''\<rparr>" "demo_products ! 2"]
  by (simp add: demo_watches_def demo_products_def)

section \<open>The price engine\<close>

lemma get_active_sale_Some:
  assumes "s \<in> set sales" "sale_product_id s = pid"
    and "start_date s \<le> clock w (ticks w)" "clock w (ticks w) \<le> end_date s"
  obtains s' where "get_active_sale sales pid w = (Some s', w\<lparr>ticks := Suc (ticks w)\<rparr>)"
    and "s' \<in> set sales" "sale_product_id s' = pid"
    and "start_date s' \<le> clock w (ticks w)" "clock w (ticks w) \<le> end_date s'"
proof -
  let ?P = "\<lambda>s. sale_product_id s = pid \<and> start_date s \<le> clock w (ticks w)
                \<and> clock w (ticks w) \<le> end_date s"
  have "find ?P sales \<noteq> None"
    using assms by (auto simp: find_None_iff)
  then obtain s' where f: "find ?P sales = Some s'" by blast
  then have "s' \<in> set sales" "?P s'"
    by (auto simp: find_Some_iff)
  with f that show thesis
    by (simp add: get_active_sale_def utcnow_def)
qed

lemma get_active_sale_cases:
  obtains (none) "get_active_sale sales pid w = (None, w\<lparr>ticks := Suc (ticks w)\<rparr>)"
  | (some) s where "get_active_sale sales pid w = (Some s, w\<lparr>ticks := Suc (ticks w)\<rparr>)"
      "s \<in> set sales" "sale_product_id s = pid"
      "start_date s \<le> clock w (ticks w)" "clock w (ticks w) \<le> end_date s"
proof -
  let ?P = "\<lambda>s. sale_product_id s = pid \<and> start_date s \<le> clock w (ticks w)
                \<and> clock w (ticks w) \<le> end_date s"
  show thesis
  proof (cases "find ?P sales")
    case None
    then show thesis using none by (simp add: get_active_sale_def utcnow_def)
  next
    case (Some s)
    then have "s \<in> set sales" "?P s" by (auto simp: find_Some_iff)
    with Some show thesis using some by (simp add: get_active_sale_def utcnow_def)
  qed
qed

text \<open>
  C2. When some sale event of the product is active at the clock reading of the lookup,
  the update sets the current price to the sale price of an active sale event of that
  product (the first in query order) and reports a sale; this is the price of the given
  event whenever all active events of the product agree on the price, as they do when only
  one is active. The outcome does not depend on the random draws.
\<close>

theorem sale_precedence:
  assumes "s \<in> set sales" and "sale_product_id s = product_id p"
    and "start_date s \<le> clock w (ticks w)" and "clock w (ticks w) \<le> end_date s"
  shows "(\<exists>s'\<in>set sales. sale_product_id s' = product_id p \<and> is_active s' (clock w (ticks w)) \<and>
            update_product_price sales p w =
              (p\<lparr>current_price := sale_price s', last_updated := clock w (Suc (ticks w))\<rparr>,
               (sale_price s', True), w\<lparr>ticks := Suc (Suc (ticks w))\<rparr>))
         \<and> ((\<forall>s'\<in>set sales. sale_product_id s' = product_id p \<and> is_active s' (clock w (ticks w))
                \<longrightarrow> sale_price s' = sale_price s)
              \<longrightarrow> current_price (fst (update_product_price sales p w)) = sale_price s)
         \<and> (\<forall>r n. current_price (fst (update_product_price sales p (w\<lparr>rand := r, draws := n\<rparr>)))
                  = current_price (fst (update_product_price sales p w)))"
proof -
  obtain s' where g: "get_active_sale sales (product_id p) w = (Some s', w\<lparr>ticks := Suc (ticks w)\<rparr>)"
    and s': "s' \<in> set sales" "sale_product_id s' = product_id p"
      "start_date s' \<le> clock w (ticks w)" "clock w (ticks w) \<le> end_date s'"
    using assms by (rule get_active_sale_Some)
  have upd: "update_product_price sales p w =
              (p\<lparr>current_price := sale_price s', last_updated := clock w (Suc (ticks w))\<rparr>,
               (sale_price s', True), w\<lparr>ticks := Suc (Suc (ticks w))\<rparr>)"
    by (simp add: update_product_price_def g utcnow_def)
  have indep: "current_price (fst (update_product_price sales p (w\<lparr>rand := r, draws := n\<rparr>)))
                  = sale_price s'" for r n
    by (simp add: update_product_price_def get_active_sale_def utcnow_def
        g [unfolded get_active_sale_def utcnow_def, simplified])
  show ?thesis
    using s' upd indep by (auto simp: is_active_def)
qed

theorem sale_precedence_witness:
  "demo_sales ! 0 \<in> set demo_sales
   \<and> sale_product_id (demo_sales ! 0) = product_id (demo_products ! 0)
   \<and> start_date (demo_sales ! 0) \<le> clock demo_world (ticks demo_world)
   \<and> clock demo_world (ticks demo_world) \<le> end_date (demo_sales ! 0)
   \<and> current_price (fst (update_product_price demo_sales (demo_products ! 0) demo_world)) = 200"
proof -
  have h: "demo_sales ! 0 \<in> set demo_sales"
    "sale_product_id (demo_sales ! 0) = product_id (demo_products ! 0)"
    "start_date (demo_sales ! 0) \<le> clock demo_world (ticks demo_world)"
    "clock demo_world (ticks demo_world) \<le> end_date (demo_sales ! 0)"
    by (simp_all add: demo_sales_def demo_products_def demo_world_def demo_clock_def)
  have "\<forall>s'\<in>set demo_sales. sale_price s' = sale_price (demo_sales ! 0)"
    by (simp add: demo_sales_def)
  with sale_precedence [OF h] h show ?thesis
    by (simp add: demo_sales_def)
qed

lemma clamped_price_bounds:
  "0 \<le> base_price p \<Longrightarrow> base_price p / 2 \<le> clamped_price p pct \<and> clamped_price p pct \<le> base_price p"
  by (auto simp: clamped_price_def max_def min_def)

lemma demo_draw: "fst (draw_percent_change demo_world) = - 15"
  by (simp add: draw_percent_change_def random_def uniform_def demo_world_def demo_rand_def
      FLUCTUATION_CONFIG_def)

lemma demo_tie_clamped:
  "clamped_price demo_tie_product (fst (draw_percent_change demo_world)) = 9 / 8"
  by (simp add: demo_draw clamped_price_def demo_tie_product_def)

lemma py_round_tie_value: "py_round (9 / 8) 2 = 28 / 25"
  by (simp add: py_round_def round_half_even_def Let_def)

text \<open>
  C8, as the specification states it: the random-driven price would be the clamped price
  rounded half away from zero. For a product whose lower bound is 1.125 the code returns
  1.12, where rounding half away from zero gives 1.13.
\<close>

theorem rounding_half_away_counterexample:
  "fst (apply_random_fluctuation demo_tie_product demo_world) = 28 / 25
   \<and> spec_round_half_away
        (clamped_price demo_tie_product (fst (draw_percent_change demo_world))) 2 = 113 / 100"
proof -
  have a: "fst (apply_random_fluctuation demo_tie_product demo_world) = 28 / 25"
    by (simp add: apply_random_fluctuation_def split_def demo_tie_clamped py_round_tie_value)
  have s: "spec_round_half_away (9 / 8) 2 = 113 / 100"
    by (simp add: spec_round_half_away_def)
  show ?thesis using a s unfolding demo_tie_clamped by simp
qed

text \<open>
  C8, amended. A random-driven price is the clamped price rounded once to a whole number
  of cents, to the nearest cent, a tie going to the even cent; the clamped price lies
  between half the base price and the base price when the base price is not negative.
\<close>

theorem rounding_after_clamp:
  "(let pct = fst (draw_percent_change w);
        c = clamped_price p pct;
        r = fst (apply_random_fluctuation p w)
    in r = py_round c 2
       \<and> r * 100 = of_int (round_half_even (c * 100))
       \<and> \<bar>r - c\<bar> \<le> 1 / 200
       \<and> (c * 100 - of_int \<lfloor>c * 100\<rfloor> = 1 / 2 \<longrightarrow> even (round_half_even (c * 100)))
       \<and> (0 \<le> base_price p \<longrightarrow> base_price p / 2 \<le> c \<and> c \<le> base_price p))"
proof -
  define c where "c = clamped_price p (fst (draw_percent_change w))"
  have r: "fst (apply_random_fluctuation p w) = py_round c 2"
    by (simp add: apply_random_fluctuation_def split_def c_def)
  have 1: "py_round c 2 * 100 = of_int (round_half_even (c * 100))"
    by (rule py_round_cents)
  have 2: "\<bar>py_round c 2 - c\<bar> \<le> 1 / 200"
    by (rule py_round_near)
  have 3: "c * 100 - of_int \<lfloor>c * 100\<rfloor> = 1 / 2 \<longrightarrow> even (round_half_even (c * 100))"
    using round_half_even_tie [of "c * 100"] by blast
  have 4: "0 \<le> base_price p \<longrightarrow> base_price p / 2 \<le> c \<and> c \<le> base_price p"
    unfolding c_def using clamped_price_bounds [of p] by blast
  show ?thesis
    unfolding Let_def c_def [symmetric] r using 1 2 3 4 by blast
qed

theorem rounding_after_clamp_witness:
  "0 \<le> base_price demo_tie_product
   \<and> clamped_price demo_tie_product (fst (draw_percent_change demo_world)) * 100
       - of_int \<lfloor>clamped_price demo_tie_product (fst (draw_percent_change demo_world)) * 100\<rfloor>
       = 1 / 2
   \<and> fst (apply_random_fluctuation demo_tie_product demo_world) = 28 / 25
   \<and> even (round_half_even
        (clamped_price demo_tie_product (fst (draw_percent_change demo_world)) * 100))"
proof -
  have b: "0 \<le> base_price demo_tie_product"
    by (simp add: demo_tie_product_def)
  have t: "clamped_price demo_tie_product (fst (draw_percent_change demo_world)) * 100
       - of_int \<lfloor>clamped_price demo_tie_product (fst (draw_percent_change demo_world)) * 100\<rfloor>
       = 1 / 2"
    unfolding demo_tie_clamped by simp
  from rounding_after_clamp [of demo_world demo_tie_product] b t show ?thesis
    unfolding Let_def by (simp add: demo_tie_clamped py_round_tie_value)
qed

section \<open>Price bounds over a cycle\<close>

lemma fluctuation_bounds:
  assumes "0 \<le> base_price p"
  shows "random_driven_bounds (p\<lparr>current_price := fst (apply_random_fluctuation p w), last_updated := t\<rparr>)"
proof -
  define c where "c = clamped_price p (fst (draw_percent_change w))"
  have r: "fst (apply_random_fluctuation p w) = py_round c 2"
    by (simp add: apply_random_fluctuation_def split_def c_def)
  have c: "base_price p / 2 \<le> c" "c \<le> base_price p"
    unfolding c_def using clamped_price_bounds [OF assms] by blast+
  have lo: "py_round (base_price p / 2) 2 \<le> py_round c 2"
    using c(1) by (rule py_round_mono)
  have hi: "py_round c 2 \<le> py_round (base_price p) 2"
    using c(2) by (rule py_round_mono)
  have ex: "base_price p / 2 \<le> py_round c 2 \<and> py_round c 2 \<le> base_price p"
    if "base_price p * 50 = of_int k" for k :: int
  proof -
    have "base_price p / 2 * 10 ^ 2 = of_int k" using that by simp
    then have 1: "py_round (base_price p / 2) 2 = base_price p / 2" by (rule py_round_fixed)
    have "base_price p * 10 ^ 2 = of_int (2 * k)" using that by simp
    then have 2: "py_round (base_price p) 2 = base_price p" by (rule py_round_fixed)
    show ?thesis using lo hi 1 2 by simp
  qed
  show ?thesis
    unfolding random_driven_bounds_def using lo hi ex by (auto simp: r)
qed

lemma update_product_price_updated:
  assumes "update_product_price sales p w = (p', (np, is_sale), w')"
  shows "price_updated sales p p'
           \<lparr>upd_product_id = product_id p', upd_name = name p', upd_old_price = current_price p,
            upd_new_price = np, upd_is_sale_event = is_sale,
            upd_discount_percent = discount_percent p'\<rparr>"
proof (cases rule: get_active_sale_cases [of sales "product_id p" w])
  case none
  with assms show ?thesis
    using fluctuation_bounds [where p = p and w = "w\<lparr>ticks := Suc (ticks w)\<rparr>"]
    by (auto simp: update_product_price_def utcnow_def price_updated_def split_def)
next
  case (some s)
  with assms show ?thesis
    by (auto simp: update_product_price_def utcnow_def price_updated_def)
qed

lemma update_loop_updated:
  "update_loop sales ps summary w = (ps', summary', w') \<Longrightarrow>
     \<exists>new. details summary' = details summary @ new
       \<and> list_all2 (\<lambda>p (p', u). price_updated sales p p' u) ps (zip ps' new)
       \<and> length ps' = length ps \<and> length new = length ps"
proof (induction ps arbitrary: summary w ps' summary' w')
  case Nil
  then show ?case by simp
next
  case (Cons p ps)
  obtain p1 np is_sale w1 where u: "update_product_price sales p w = (p1, (np, is_sale), w1)"
    by (metis prod_cases3 surj_pair)
  define u1 where "u1 = \<lparr>upd_product_id = product_id p1, upd_name = name p1,
      upd_old_price = current_price p, upd_new_price = np, upd_is_sale_event = is_sale,
      upd_discount_percent = discount_percent p1\<rparr>"
  define s2 where "s2 = (if is_sale
                        then summary\<lparr>sale_events_count := sale_events_count summary + 1\<rparr>
                        else summary\<lparr>random_fluctuations := random_fluctuations summary + 1\<rparr>)
                       \<lparr>details := details summary @ [u1]\<rparr>"
  obtain ps2 s3 w2 where l: "update_loop sales ps s2 w1 = (ps2, s3, w2)"
    by (metis prod_cases3)
  have eq: "update_loop sales (p # ps) summary w = (p1 # ps2, s3, w2)"
    using u l by (simp add: Let_def u1_def s2_def split: if_splits)
  from Cons.IH [OF l] obtain new where
    n: "details s3 = details s2 @ new"
      "list_all2 (\<lambda>p (p', u). price_updated sales p p' u) ps (zip ps2 new)"
      "length ps2 = length ps" "length new = length ps"
    by blast
  have d2: "details s2 = details summary @ [u1]" by (simp add: s2_def)
  have pu: "price_updated sales p p1 u1"
    unfolding u1_def by (rule update_product_price_updated [OF u])
  from Cons.prems eq have r: "ps' = p1 # ps2" "summary' = s3" "w' = w2" by simp_all
  show ?case
    by (rule exI [of _ "u1 # new"]) (use n d2 pu r in simp)
qed

lemma demo_update_all:
  "update_all_prices demo_db (snd (utcnow demo_world)) = 
    (\<lparr>total = 3, sale_events_count = 1, random_fluctuations = 2,
      details =
               [\<lparr>upd_product_id = 1, upd_name = ''PlayStation 5'',
                   upd_old_price = 450, upd_new_price = 200,
                   upd_is_sale_event = True, upd_discount_percent = 60\<rparr>,
                \<lparr>upd_product_id = 2, upd_name = ''PlayStation 5'',
                   upd_old_price = 400, upd_new_price = 340,
                   upd_is_sale_event = False, upd_discount_percent = 32\<rparr>,
                \<lparr>upd_product_id = 3, upd_name = ''AirPods'',
                   upd_old_price = 200, upd_new_price = 170,
                   upd_is_sale_event = False, upd_discount_percent = 15\<rparr>]\<rparr>,
     demo_db\<lparr>products := 
     [\<lparr>product_id = 1, name = ''PlayStation 5'', category = ''gaming'',
         retailer = ''Walmart'', base_price = 500, current_price = 200,
         last_updated = 502\<rparr>,
      \<lparr>product_id = 2, name = ''PlayStation 5'', category = ''gaming'',
         retailer = ''Target'', base_price = 500, current_price = 340,
         last_updated = 504\<rparr>,
      \<lparr>product_id = 3, name = ''AirPods'', category = ''headphones'',
         retailer = ''BestBuy'', base_price = 200, current_price = 170,
         last_updated = 506\<rparr>]\<rparr>,
     demo_world\<lparr>ticks := 7, draws := 4\<rparr>)"
  by (simp add: update_all_prices_def update_product_price_def get_active_sale_def utcnow_def
      apply_random_fluctuation_def draw_percent_change_def random_def uniform_def
      FLUCTUATION_CONFIG_def clamped_price_def py_round_def round_half_even_def
      discount_percent_def demo_db_def demo_products_def demo_sales_def demo_world_def
      demo_clock_def demo_rand_def Let_def)

lemma run_price_check_products:
  "products (fst (snd (run_price_check d w)))
     = products (fst (snd (update_all_prices d (snd (utcnow w)))))"
  and "sale_events (fst (snd (run_price_check d w))) = sale_events d"
  by (auto simp: run_price_check_def update_all_prices_def Let_def split_def
      split: prod.splits sum.splits)

lemma update_all_prices_updated:
  assumes "update_all_prices d w = (summary, d', w')"
  shows "length (products d') = length (products d)"
    and "length (details summary) = length (products d)"
    and "i < length (products d) \<Longrightarrow>
           price_updated (sale_events d) (products d ! i) (products d' ! i) (details summary ! i)"
    and "watches d' = watches d" and "sale_events d' = sale_events d"
proof -
  define s0 where "s0 = \<lparr>total = length (products d), sale_events_count = 0,
                      random_fluctuations = 0, details = []\<rparr>"
  obtain ps' where l: "update_loop (sale_events d) (products d) s0 w = (ps', summary, w')"
    and d': "d' = d\<lparr>products := ps'\<rparr>"
    using assms by (auto simp: update_all_prices_def Let_def s0_def split: prod.splits)
  from update_loop_updated [OF l] obtain new where
    n: "details summary = details s0 @ new"
      "list_all2 (\<lambda>p (p', u). price_updated (sale_events d) p p' u) (products d) (zip ps' new)"
      "length ps' = length (products d)" "length new = length (products d)"
    by blast
  have ds: "details summary = new" using n(1) by (simp add: s0_def)
  show "length (products d') = length (products d)" using n d' by simp
  show "length (details summary) = length (products d)" using n ds by simp
  show "watches d' = watches d" "sale_events d' = sale_events d" using d' by simp_all
  show "price_updated (sale_events d) (products d ! i) (products d' ! i) (details summary ! i)"
    if "i < length (products d)"
    using list_all2_nthD [OF n(2) that] that n(3,4) ds d' by simp
qed

lemma demo_cycle_products:
  "products (fst (snd (run_price_check demo_db demo_world))) =
     [\<lparr>product_id = 1, name = ''PlayStation 5'', category = ''gaming'',
         retailer = ''Walmart'', base_price = 500, current_price = 200,
         last_updated = 502\<rparr>,
      \<lparr>product_id = 2, name = ''PlayStation 5'', category = ''gaming'',
         retailer = ''Target'', base_price = 500, current_price = 340,
         last_updated = 504\<rparr>,
      \<lparr>product_id = 3, name = ''AirPods'', category = ''headphones'',
         retailer = ''BestBuy'', base_price = 200, current_price = 170,
         last_updated = 506\<rparr>]"
  unfolding run_price_check_products(1) demo_update_all by simp

text \<open>
  C1, as the specification states it: after a cycle every product would lie between half
  its base price and its base price, also when its price came from a sale event. In the
  example the sale price 200 of a product with base price 500 becomes its price.
\<close>

theorem price_bounds_sale_counterexample:
  "base_price (products (fst (snd (run_price_check demo_db demo_world))) ! 0) = 500
   \<and> current_price (products (fst (snd (run_price_check demo_db demo_world))) ! 0) = 200
   \<and> \<not> (base_price (products (fst (snd (run_price_check demo_db demo_world))) ! 0) * (1 / 2)
          \<le> current_price (products (fst (snd (run_price_check demo_db demo_world))) ! 0))"
  unfolding demo_cycle_products by simp

text \<open>
  C1, amended. After a cycle every product keeps its identity and base price. A product
  whose price came from a sale event has the sale price of one of its sale events,
  whatever that price is. A product with a base price that is not negative whose price is
  random-driven lies between half its base price and its base price, both rounded to
  cents; it lies between half its base price and its base price exactly when half the base
  price is a whole number of cents.
\<close>

theorem price_bounds_after_cycle:
  "(let summary = fst (update_all_prices d (snd (utcnow w)));
        d' = fst (snd (run_price_check d w))
    in length (products d') = length (products d)
       \<and> length (details summary) = length (products d)
       \<and> (\<forall>i < length (products d).
            let p = products d ! i; p' = products d' ! i; u = details summary ! i
            in product_id p' = product_id p \<and> base_price p' = base_price p
               \<and> upd_new_price u = current_price p'
               \<and> (upd_is_sale_event u \<longrightarrow>
                    (\<exists>s\<in>set (sale_events d).
                       sale_product_id s = product_id p \<and> current_price p' = sale_price s))
               \<and> (\<not> upd_is_sale_event u \<and> 0 \<le> base_price p \<longrightarrow>
                    py_round (base_price p / 2) 2 \<le> current_price p'
                    \<and> current_price p' \<le> py_round (base_price p) 2
                    \<and> ((\<exists>k::int. base_price p * 50 = of_int k) \<longrightarrow>
                          base_price p / 2 \<le> current_price p'
                          \<and> current_price p' \<le> base_price p))))"
proof -
  obtain summary d1 w1 where u: "update_all_prices d (snd (utcnow w)) = (summary, d1, w1)"
    by (metis prod_cases3)
  have p: "products (fst (snd (run_price_check d w))) = products d1"
    using run_price_check_products(1) [of d w] u by simp
  note f = update_all_prices_updated [OF u]
  have "price_updated (sale_events d) (products d ! i) (products d1 ! i) (details summary ! i)"
    if "i < length (products d)" for i
    using f(3) that by blast
  then have main: "product_id (products d1 ! i) = product_id (products d ! i)
       \<and> base_price (products d1 ! i) = base_price (products d ! i)
       \<and> upd_new_price (details summary ! i) = current_price (products d1 ! i)
       \<and> (upd_is_sale_event (details summary ! i) \<longrightarrow>
            (\<exists>s\<in>set (sale_events d).
               sale_product_id s = product_id (products d ! i)
               \<and> current_price (products d1 ! i) = sale_price s))
       \<and> (\<not> upd_is_sale_event (details summary ! i) \<and> 0 \<le> base_price (products d ! i) \<longrightarrow>
            py_round (base_price (products d ! i) / 2) 2 \<le> current_price (products d1 ! i)
            \<and> current_price (products d1 ! i) \<le> py_round (base_price (products d ! i)) 2
            \<and> ((\<exists>k::int. base_price (products d ! i) * 50 = of_int k) \<longrightarrow>
                  base_price (products d ! i) / 2 \<le> current_price (products d1 ! i)
                  \<and> current_price (products d1 ! i) \<le> base_price (products d ! i)))"
    if "i < length (products d)" for i
    using that unfolding price_updated_def random_driven_bounds_def by metis
  show ?thesis
    unfolding Let_def p u fst_conv snd_conv using f(1,2) main by blast
qed

theorem price_bounds_after_cycle_witness:
  "1 < length (products demo_db)
   \<and> \<not> upd_is_sale_event (details (fst (update_all_prices demo_db (snd (utcnow demo_world)))) ! 1)
   \<and> 0 \<le> base_price (products demo_db ! 1)
   \<and> base_price (products demo_db ! 1) * 50 = of_int 25000
   \<and> 250 \<le> current_price (products (fst (snd (run_price_check demo_db demo_world))) ! 1)
   \<and> current_price (products (fst (snd (run_price_check demo_db demo_world))) ! 1) \<le> 500
   \<and> upd_is_sale_event (details (fst (update_all_prices demo_db (snd (utcnow demo_world)))) ! 0)
   \<and> (\<exists>s\<in>set (sale_events demo_db).
         sale_product_id s = product_id (products demo_db ! 0)
         \<and> current_price (products (fst (snd (run_price_check demo_db demo_world))) ! 0)
             = sale_price s)"
proof -
  have h: "1 < length (products demo_db)"
    "\<not> upd_is_sale_event (details (fst (update_all_prices demo_db (snd (utcnow demo_world)))) ! 1)"
    "0 \<le> base_price (products demo_db ! 1)"
    "base_price (products demo_db ! 1) * 50 = of_int 25000"
    "0 < length (products demo_db)"
    "upd_is_sale_event (details (fst (update_all_prices demo_db (snd (utcnow demo_world)))) ! 0)"
    unfolding demo_update_all by (simp_all add: demo_db_def demo_products_def)
  have b: "base_price (products demo_db ! 1) = 500"
    by (simp add: demo_db_def demo_products_def)
  from h(4) have e: "\<exists>k::int. base_price (products demo_db ! 1) * 50 = of_int k" ..
  from price_bounds_after_cycle [of demo_db demo_world] h(1)
  have "let p = products demo_db ! 1;
            p' = products (fst (snd (run_price_check demo_db demo_world))) ! 1;
            u = details (fst (update_all_prices demo_db (snd (utcnow demo_world)))) ! 1
        in \<not> upd_is_sale_event u \<and> 0 \<le> base_price p \<longrightarrow>
            ((\<exists>k::int. base_price p * 50 = of_int k) \<longrightarrow>
                          base_price p / 2 \<le> current_price p'
                          \<and> current_price p' \<le> base_price p)"
    unfolding Let_def by blast
  with h e b have random_driven:
    "250 \<le> current_price (products (fst (snd (run_price_check demo_db demo_world))) ! 1)
     \<and> current_price (products (fst (snd (run_price_check demo_db demo_world))) ! 1) \<le> 500"
    unfolding Let_def by simp
  from price_bounds_after_cycle [of demo_db demo_world] h(5)
  have "let p = products demo_db ! 0;
            p' = products (fst (snd (run_price_check demo_db demo_world))) ! 0;
            u = details (fst (update_all_prices demo_db (snd (utcnow demo_world)))) ! 0
        in upd_is_sale_event u \<longrightarrow>
             (\<exists>s\<in>set (sale_events demo_db).
                sale_product_id s = product_id p \<and> current_price p' = sale_price s)"
    unfolding Let_def by blast
  with h(6) have sale_driven:
    "\<exists>s\<in>set (sale_events demo_db).
         sale_product_id s = product_id (products demo_db ! 0)
         \<and> current_price (products (fst (snd (run_price_check demo_db demo_world))) ! 0)
             = sale_price s"
    unfolding Let_def by blast
  show ?thesis using h random_driven sale_driven by blast
qed

section \<open>The watch loop\<close>

lemma same_services_refl: "same_services w w"
  by (simp add: same_services_def)

lemma same_services_trans:
  "same_services w w1 \<Longrightarrow> same_services w1 w2 \<Longrightarrow> same_services w w2"
  by (auto simp: same_services_def)

lemma utcnow_same_services: "same_services w (snd (utcnow w))"
  by (simp add: same_services_def utcnow_def)

lemma is_cooldown_expired_world:
  "same_services w (snd (is_cooldown_expired wt w))"
  "outbox (snd (is_cooldown_expired wt w)) = outbox w"
  by (auto simp: is_cooldown_expired_def utcnow_def same_services_def Let_def
      split: option.splits)

lemma check_watch_None:
  "watch_product ps wt = None \<Longrightarrow> check_watch ps i wt w = (Inl AttributeError, w)"
  by (simp add: check_watch_def)

lemma check_watch_Some:
  assumes "watch_product ps wt = Some p"
  obtains r w' where "check_watch ps i wt w = (Inr r, w')"
    and "checked ps wt r"
    and "r_watch_ref r = (if r_should_notify r then Some i else None)"
    and "same_services w w'" and "outbox w' = outbox w"
proof -
  obtain e w' where c: "is_cooldown_expired wt w = (e, w')"
    by (cases "is_cooldown_expired wt w")
  have fr: "same_services w w'" "outbox w' = outbox w"
    using is_cooldown_expired_world [where w = w and wt = wt] c by simp_all
  have n: "last_notified_at wt = None \<longrightarrow> e"
    using c by (auto simp: is_cooldown_expired_def)
  define r0 where "r0 = \<lparr>r_watch_id = watch_id wt, r_email = email wt,
                         r_product_name = name p, r_product_price = current_price p,
                         r_product_base_price = base_price p, r_retailer = retailer p,
                         r_discount_percent = discount_percent p,
                         r_threshold_type = threshold_type wt,
                         r_threshold_value = threshold_value wt,
                         r_threshold_met = False, r_cooldown_expired = False,
                         r_should_notify = False, r_reason = NoReason,
                         r_watch_ref = None\<rparr>"
  consider (a) "\<not> threshold_met wt p" | (b) "threshold_met wt p" "\<not> e" | (c) "threshold_met wt p" "e"
    by blast
  then show thesis
  proof cases
    case a
    have 1: "check_watch ps i wt w = (Inr (r0\<lparr>r_reason := ThresholdNotMet\<rparr>), w)"
      using assms a by (simp add: check_watch_def r0_def)
    have 2: "checked ps wt (r0\<lparr>r_reason := ThresholdNotMet\<rparr>)"
      using assms a by (simp add: checked_def r0_def)
    have 3: "r_watch_ref (r0\<lparr>r_reason := ThresholdNotMet\<rparr>)
              = (if r_should_notify (r0\<lparr>r_reason := ThresholdNotMet\<rparr>) then Some i else None)"
      by (simp add: r0_def)
    show thesis by (rule that [OF 1 2 3 same_services_refl refl])
  next
    case b
    let ?r = "r0\<lparr>r_threshold_met := True, r_reason := CooldownActive (last_notified_at wt)\<rparr>"
    have 1: "check_watch ps i wt w = (Inr ?r, w')"
      using assms b c by (simp add: check_watch_def r0_def)
    have 2: "checked ps wt ?r"
      using assms b n by (simp add: checked_def r0_def)
    have 3: "r_watch_ref ?r = (if r_should_notify ?r then Some i else None)"
      by (simp add: r0_def)
    show thesis by (rule that [OF 1 2 3 fr])
  next
    case c
    let ?r = "r0\<lparr>r_threshold_met := True, r_cooldown_expired := True,
                  r_should_notify := True, r_reason := ReadyToNotify,
                  r_watch_ref := Some i\<rparr>"
    have 1: "check_watch ps i wt w = (Inr ?r, w')"
      using assms c \<open>is_cooldown_expired wt w = (e, w')\<close> by (simp add: check_watch_def r0_def)
    have 2: "checked ps wt ?r"
      using assms c by (simp add: checked_def r0_def)
    have 3: "r_watch_ref ?r = (if r_should_notify ?r then Some i else None)"
      by (simp add: r0_def)
    show thesis by (rule that [OF 1 2 3 fr])
  qed
qed

lemma check_loop_fail:
  "\<exists>wt\<in>set wts. watch_product ps wt = None \<Longrightarrow>
     \<exists>w'. check_loop ps i wts results g w = (Inl AttributeError, w')"
proof (induction wts arbitrary: i results g w)
  case Nil
  then show ?case by simp
next
  case (Cons wt wts)
  show ?case
  proof (cases "watch_product ps wt")
    case None
    then show ?thesis by (simp add: check_watch_None)
  next
    case (Some p)
    then obtain r w1 where c: "check_watch ps i wt w = (Inr r, w1)"
      by (rule check_watch_Some)
    from Some Cons.prems have "\<exists>wt\<in>set wts. watch_product ps wt = None" by auto
    from Cons.IH [OF this] show ?thesis using c by simp
  qed
qed

lemma check_loop_ok:
  "\<forall>wt\<in>set wts. watch_product ps wt \<noteq> None \<Longrightarrow>
     \<exists>new w'. check_loop ps i wts results g w =
                 (Inr (results @ new, add_groups (filter r_should_notify new) g), w')
       \<and> length new = length wts
       \<and> (\<forall>k<length wts. checked ps (wts ! k) (new ! k)
             \<and> r_watch_ref (new ! k) = (if r_should_notify (new ! k) then Some (i + k) else None))
       \<and> same_services w w' \<and> outbox w' = outbox w"
proof (induction wts arbitrary: i results g w)
  case Nil
  then show ?case by (simp add: add_groups_def same_services_refl)
next
  case (Cons wt wts)
  from Cons.prems obtain p where p: "watch_product ps wt = Some p" by auto
  from p obtain r w1 where c: "check_watch ps i wt w = (Inr r, w1)"
    and r: "checked ps wt r" "r_watch_ref r = (if r_should_notify r then Some i else None)"
    and fr: "same_services w w1" "outbox w1 = outbox w"
    by (rule check_watch_Some)
  define g1 where "g1 = (if r_should_notify r
             then group_append (r_email r, r_product_name r) r g else g)"
  from Cons.prems have "\<forall>wt\<in>set wts. watch_product ps wt \<noteq> None" by simp
  from Cons.IH [OF this, of "Suc i" "results @ [r]" g1 w1]
  obtain new w' where l: "check_loop ps (Suc i) wts (results @ [r]) g1 w1 =
                 (Inr ((results @ [r]) @ new, add_groups (filter r_should_notify new) g1), w')"
    and n: "length new = length wts"
      "\<forall>k<length wts. checked ps (wts ! k) (new ! k)
             \<and> r_watch_ref (new ! k) = (if r_should_notify (new ! k) then Some (Suc i + k) else None)"
      "same_services w1 w'" "outbox w' = outbox w1"
    by blast
  have g: "add_groups (filter r_should_notify new) g1 = add_groups (filter r_should_notify (r # new)) g"
    by (simp add: add_groups_def g1_def)
  have e: "check_loop ps i (wt # wts) results g w =
          (Inr (results @ (r # new), add_groups (filter r_should_notify (r # new)) g), w')"
    using c l g by (simp add: g1_def)
  have k: "checked ps ((wt # wts) ! k) ((r # new) ! k)
             \<and> r_watch_ref ((r # new) ! k) = (if r_should_notify ((r # new) ! k) then Some (i + k) else None)"
    if "k < length (wt # wts)" for k
    using that r n(2) by (cases k) auto
  show ?case
    apply (rule exI [of _ "r # new"], rule exI [of _ w'])
    using e k n(1) fr n(3,4) same_services_trans [OF fr(1) n(3)] by simp
qed

section \<open>Grouping\<close>

lemma group_append_keys:
  "map fst (group_append k r g) = (if k \<in> fst ` set g then map fst g else map fst g @ [k])"
  by (induction g) (auto split: if_splits)

lemma group_append_map_of:
  "map_of (group_append k r g) =
     (map_of g)(k \<mapsto> (case map_of g k of None \<Rightarrow> [r] | Some rs \<Rightarrow> rs @ [r]))"
  by (induction g) (auto simp: fun_eq_iff)

lemma group_append_distinct:
  "distinct (map fst g) \<Longrightarrow> distinct (map fst (group_append k r g))"
  by (simp add: group_append_keys)

lemma add_groups_invariant:
  assumes "distinct (map fst g)"
    and "\<And>k. map_of g k = (let f = filter (\<lambda>r. group_key r = k) rs0
                            in if f = [] then None else Some f)"
  shows "distinct (map fst (add_groups rs g))
       \<and> (\<forall>k. map_of (add_groups rs g) k =
                (let f = filter (\<lambda>r. group_key r = k) (rs0 @ rs)
                 in if f = [] then None else Some f))"
  using assms
proof (induction rs arbitrary: g rs0)
  case Nil
  then show ?case by (simp add: add_groups_def)
next
  case (Cons r rs)
  let ?g1 = "group_append (r_email r, r_product_name r) r g"
  have d: "distinct (map fst ?g1)"
    using Cons.prems(1) by (rule group_append_distinct)
  have m: "map_of ?g1 k = (let f = filter (\<lambda>x. group_key x = k) (rs0 @ [r])
                            in if f = [] then None else Some f)" for k
    by (simp add: group_append_map_of Cons.prems(2) Let_def group_key_def)
  from Cons.IH [OF d m] show ?case
    by (simp add: add_groups_def)
qed

lemma add_groups_empty:
  "distinct (map fst (add_groups rs []))"
  "(k, grp) \<in> set (add_groups rs []) \<longleftrightarrow>
     grp \<noteq> [] \<and> grp = filter (\<lambda>r. group_key r = k) rs"
proof -
  have inv: "distinct (map fst (add_groups rs []))
       \<and> (\<forall>k. map_of (add_groups rs []) k =
                (let f = filter (\<lambda>r. group_key r = k) ([] @ rs)
                 in if f = [] then None else Some f))"
    by (rule add_groups_invariant) simp_all
  then show d: "distinct (map fst (add_groups rs []))" by blast
  have "(k, grp) \<in> set (add_groups rs []) \<longleftrightarrow> map_of (add_groups rs []) k = Some grp"
    using d by simp
  also have "\<dots> \<longleftrightarrow> grp \<noteq> [] \<and> grp = filter (\<lambda>r. group_key r = k) rs"
  proof -
    have m: "map_of (add_groups rs []) k =
               (if filter (\<lambda>r. group_key r = k) rs = [] then None
                else Some (filter (\<lambda>r. group_key r = k) rs))"
      using conjunct2 [OF inv, THEN spec, of k] unfolding Let_def append_Nil .
    show ?thesis unfolding m by auto
  qed
  finally show "(k, grp) \<in> set (add_groups rs []) \<longleftrightarrow>
     grp \<noteq> [] \<and> grp = filter (\<lambda>r. group_key r = k) rs" .
qed

section \<open>Stamping and dispatch\<close>

lemma stamped_widen:
  "stamped w1 w2 a b \<Longrightarrow> same_services w w1 \<Longrightarrow> same_services w2 w' \<Longrightarrow> stamped w w' a b"
  unfolding stamped_def same_services_def by force

lemma stamped_over:
  assumes "stamped w1 w2 b c" "b = a\<lparr>last_notified_at := x\<rparr>"
  shows "stamped w1 w2 a c"
  using assms unfolding stamped_def by auto

lemma stamp_loop_ok:
  "\<forall>r\<in>set rs. r_watch_ref r \<noteq> None \<Longrightarrow>
     \<exists>ws' w'. stamp_loop rs ws w = (Inr (), ws', w')
       \<and> length ws' = length ws
       \<and> w' = w\<lparr>ticks := ticks w + length rs\<rparr>
       \<and> (\<forall>j<length ws.
             (if \<exists>r\<in>set rs. r_watch_ref r = Some j
              then stamped w w' (ws ! j) (ws' ! j)
              else ws' ! j = ws ! j))"
proof (induction rs arbitrary: ws w)
  case Nil
  then show ?case by simp
next
  case (Cons r rs)
  from Cons.prems obtain i where i: "r_watch_ref r = Some i" by auto
  define t where "t = clock w (ticks w)"
  define w1 where "w1 = w\<lparr>ticks := Suc (ticks w)\<rparr>"
  define ws1 where "ws1 = ws[i := (ws ! i)\<lparr>last_notified_at := Some t\<rparr>]"
  have step: "stamp_loop (r # rs) ws w = stamp_loop rs ws1 w1"
    by (simp add: utcnow_def i t_def w1_def ws1_def)
  from Cons.prems have "\<forall>r\<in>set rs. r_watch_ref r \<noteq> None" by simp
  from Cons.IH [OF this, of ws1 w1] obtain ws' w' where
    l: "stamp_loop rs ws1 w1 = (Inr (), ws', w')"
    and len: "length ws' = length ws1"
    and w': "w' = w1\<lparr>ticks := ticks w1 + length rs\<rparr>"
    and el: "\<forall>j<length ws1.
             (if \<exists>r\<in>set rs. r_watch_ref r = Some j
              then stamped w1 w' (ws1 ! j) (ws' ! j)
              else ws' ! j = ws1 ! j)"
    by blast
  have fr1: "same_services w w1" by (simp add: w1_def same_services_def)
  have len1: "length ws1 = length ws" by (simp add: ws1_def)
  have w'': "w' = w\<lparr>ticks := ticks w + length (r # rs)\<rparr>"
    by (simp add: w' w1_def)
  have first: "stamped w w' (ws ! i) ((ws ! i)\<lparr>last_notified_at := Some t\<rparr>)"
    unfolding stamped_def t_def w'' by (rule bexI [of _ "ticks w"]) simp_all
  have all: "if \<exists>x\<in>set (r # rs). r_watch_ref x = Some j
        then stamped w w' (ws ! j) (ws' ! j) else ws' ! j = ws ! j"
    if j: "j < length ws" for j
  proof (cases "\<exists>x\<in>set rs. r_watch_ref x = Some j")
    case True
    with el j len1 have s: "stamped w1 w' (ws1 ! j) (ws' ! j)" by simp
    have "stamped w1 w' (ws ! j) (ws' ! j)"
    proof (cases "j = i")
      case True
      with j have "ws1 ! j = (ws ! j)\<lparr>last_notified_at := Some t\<rparr>" by (simp add: ws1_def)
      with s show ?thesis by (rule stamped_over)
    next
      case False
      then have "ws1 ! j = ws ! j" by (simp add: ws1_def)
      with s show ?thesis by simp
    qed
    then have "stamped w w' (ws ! j) (ws' ! j)"
      using fr1 same_services_refl by (rule stamped_widen)
    with True show ?thesis by simp
  next
    case False
    with el j len1 have e: "ws' ! j = ws1 ! j" by simp
    show ?thesis
    proof (cases "j = i")
      case True
      with j e have "ws' ! j = (ws ! i)\<lparr>last_notified_at := Some t\<rparr>" by (simp add: ws1_def)
      with first True i show ?thesis by auto
    next
      case ne: False
      with e have "ws' ! j = ws ! j" by (simp add: ws1_def)
      with False ne i show ?thesis by auto
    qed
  qed
  have res: "stamp_loop (r # rs) ws w = (Inr (), ws', w')"
    unfolding step by (rule l)
  have len': "length ws' = length ws" using len len1 by simp
  show ?case using res len' w'' all by blast
qed

lemma build_multi_retailer_email_ok:
  assumes "deals \<noteq> []"
  shows "\<exists>m. build_multi_retailer_email pn deals tt tv = Inr m
           \<and> body_rows m = sort_key deal_current_price deals
           \<and> headline_price m = deal_current_price (hd (body_rows m))
           \<and> headline_product m = pn"
proof -
  have "sort_key deal_current_price deals \<noteq> []"
    using assms by (metis length_sort length_0_conv)
  then obtain b bs where "sort_key deal_current_price deals = b # bs"
    by (cases "sort_key deal_current_price deals") auto
  then show ?thesis
    by (simp add: build_multi_retailer_email_def Let_def)
qed

lemma send_world:
  "snd (send_multi_retailer_notification a pn deals tt tv w) =
     w\<lparr>outbox := outbox w @
          [\<lparr>call_email = a, call_product_name = pn, call_deals = deals,
            call_threshold_type = tt, call_threshold_value = tv\<rparr>]\<rparr>"
  by (simp add: send_multi_retailer_notification_def Let_def split: sum.splits sg_outcome.splits)

lemma send_same_services:
  "same_services w w1 \<Longrightarrow>
     fst (send_multi_retailer_notification a pn deals tt tv w1)
       = fst (send_multi_retailer_notification a pn deals tt tv w)"
  by (simp add: send_multi_retailer_notification_def Let_def same_services_def
      split: sum.splits sg_outcome.splits)

lemma send_no_raise:
  assumes "deals \<noteq> []"
  shows "\<exists>b. fst (send_multi_retailer_notification a pn deals tt tv w) = Inr b"
proof -
  from build_multi_retailer_email_ok [OF assms, of pn tt tv]
  obtain m where "build_multi_retailer_email pn deals tt tv = Inr m" by blast
  then show ?thesis
    by (auto simp: send_multi_retailer_notification_def Let_def split: sg_outcome.splits)
qed

lemma send_succeeds_same_services:
  "same_services w w1 \<Longrightarrow> send_succeeds w1 k grp = send_succeeds w k grp"
  by (simp add: send_succeeds_def send_same_services split: list.splits)

lemma dispatch_loop_ok:
  assumes "\<forall>kg\<in>set G. snd kg \<noteq> [] \<and> (\<forall>r\<in>set (snd kg). r_watch_ref r \<noteq> None)"
  shows "\<exists>n' ws' w'. dispatch_loop G ws n w = (Inr n', ws', w')
    \<and> length ws' = length ws \<and> same_services w w'
    \<and> outbox w' = outbox w @ map call_of G
    \<and> n' = n + length (filter (\<lambda>kg. send_succeeds w (fst kg) (snd kg)) G)
    \<and> (\<forall>j<length ws.
          if \<exists>kg\<in>set G. send_succeeds w (fst kg) (snd kg)
                \<and> (\<exists>r\<in>set (snd kg). r_watch_ref r = Some j)
          then stamped w w' (ws ! j) (ws' ! j)
          else ws' ! j = ws ! j)"
  using assms
proof (induction G arbitrary: ws n w)
  case Nil
  then show ?case by (simp add: same_services_refl)
next
  case (Cons kg G)
  obtain a pn grp where kg: "kg = ((a, pn), grp)" by (metis surj_pair)
  from Cons.prems kg have ne: "grp \<noteq> []" and refs: "\<forall>r\<in>set grp. r_watch_ref r \<noteq> None"
    by auto
  from ne obtain r0 rest where grp: "grp = r0 # rest" by (cases grp) auto
  let ?send = "send_multi_retailer_notification a pn (map deal_of grp)
                 (r_threshold_type r0) (r_threshold_value r0) w"
  define w1 where "w1 = snd ?send"
  from send_no_raise [of "map deal_of grp" a pn "r_threshold_type r0" "r_threshold_value r0" w] ne
  obtain b where b: "fst ?send = Inr b" by auto
  have send: "?send = (Inr b, w1)" using b by (simp add: w1_def prod_eq_iff)
  have ok: "send_succeeds w (fst kg) (snd kg) = b"
    using b by (auto simp: send_succeeds_def kg grp)
  have w1: "same_services w w1" "outbox w1 = outbox w @ [call_of kg]"
    unfolding w1_def send_world by (simp_all add: same_services_def call_of_def kg grp)
  from Cons.prems have G: "\<forall>kg\<in>set G. snd kg \<noteq> [] \<and> (\<forall>r\<in>set (snd kg). r_watch_ref r \<noteq> None)"
    by simp
  show ?case
  proof (cases b)
    case False
    have step: "dispatch_loop (kg # G) ws n w = dispatch_loop G ws n w1"
      using send False by (simp add: kg grp)
    from Cons.IH [OF G, of ws n w1] obtain n' ws' w' where
      l: "dispatch_loop G ws n w1 = (Inr n', ws', w')"
      and len: "length ws' = length ws" and fr: "same_services w1 w'"
      and ob: "outbox w' = outbox w1 @ map call_of G"
      and cnt: "n' = n + length (filter (\<lambda>kg. send_succeeds w1 (fst kg) (snd kg)) G)"
      and el: "\<forall>j<length ws.
          if \<exists>kg\<in>set G. send_succeeds w1 (fst kg) (snd kg)
                \<and> (\<exists>r\<in>set (snd kg). r_watch_ref r = Some j)
          then stamped w1 w' (ws ! j) (ws' ! j)
          else ws' ! j = ws ! j"
      by blast
    have ss: "send_succeeds w1 = send_succeeds w"
      using send_succeeds_same_services [OF w1(1)] by (simp add: fun_eq_iff)
    have res: "dispatch_loop (kg # G) ws n w = (Inr n', ws', w')"
      unfolding step by (rule l)
    have fr': "same_services w w'" using w1(1) fr by (rule same_services_trans)
    have ob': "outbox w' = outbox w @ map call_of (kg # G)" using ob w1(2) by simp
    have cnt': "n' = n + length (filter (\<lambda>kg. send_succeeds w (fst kg) (snd kg)) (kg # G))"
      using cnt ok False by (simp add: ss)
    have el': "if \<exists>kg\<in>set (kg # G). send_succeeds w (fst kg) (snd kg)
                \<and> (\<exists>r\<in>set (snd kg). r_watch_ref r = Some j)
          then stamped w w' (ws ! j) (ws' ! j)
          else ws' ! j = ws ! j" if j: "j < length ws" for j
    proof (cases "\<exists>kg\<in>set G. send_succeeds w (fst kg) (snd kg)
                \<and> (\<exists>r\<in>set (snd kg). r_watch_ref r = Some j)")
      case True
      with el j have "stamped w1 w' (ws ! j) (ws' ! j)" by (simp add: ss)
      then have "stamped w w' (ws ! j) (ws' ! j)"
        using w1(1) same_services_refl by (rule stamped_widen)
      with True show ?thesis by simp
    next
      case no: False
      with el j have "ws' ! j = ws ! j" by (simp add: ss)
      with no ok False show ?thesis by auto
    qed
    show ?thesis using res len fr' ob' cnt' el' by blast
  next
    case True
    from stamp_loop_ok [OF refs, of ws w1] obtain ws1 w2 where
      st: "stamp_loop grp ws w1 = (Inr (), ws1, w2)"
      and len1: "length ws1 = length ws"
      and w2: "w2 = w1\<lparr>ticks := ticks w1 + length grp\<rparr>"
      and el1: "\<forall>j<length ws.
             (if \<exists>r\<in>set grp. r_watch_ref r = Some j
              then stamped w1 w2 (ws ! j) (ws1 ! j)
              else ws1 ! j = ws ! j)"
      by blast
    have fr12: "same_services w1 w2" "outbox w2 = outbox w1"
      by (simp_all add: w2 same_services_def)
    have fr02: "same_services w w2" using w1(1) fr12(1) by (rule same_services_trans)
    have step: "dispatch_loop (kg # G) ws n w = dispatch_loop G ws1 (n + 1) w2"
      using send True st by (simp add: kg grp)
    from Cons.IH [OF G, of ws1 "n + 1" w2] obtain n' ws' w' where
      l: "dispatch_loop G ws1 (n + 1) w2 = (Inr n', ws', w')"
      and len: "length ws' = length ws1" and fr: "same_services w2 w'"
      and ob: "outbox w' = outbox w2 @ map call_of G"
      and cnt: "n' = n + 1 + length (filter (\<lambda>kg. send_succeeds w2 (fst kg) (snd kg)) G)"
      and el: "\<forall>j<length ws1.
          if \<exists>kg\<in>set G. send_succeeds w2 (fst kg) (snd kg)
                \<and> (\<exists>r\<in>set (snd kg). r_watch_ref r = Some j)
          then stamped w2 w' (ws1 ! j) (ws' ! j)
          else ws' ! j = ws1 ! j"
      by blast
    have ss: "send_succeeds w2 = send_succeeds w"
      using send_succeeds_same_services [OF fr02] by (simp add: fun_eq_iff)
    have res: "dispatch_loop (kg # G) ws n w = (Inr n', ws', w')"
      unfolding step by (rule l)
    have len': "length ws' = length ws" using len len1 by simp
    have fr': "same_services w w'" using fr02 fr by (rule same_services_trans)
    have ob': "outbox w' = outbox w @ map call_of (kg # G)"
      using ob w1(2) fr12(2) by simp
    have cnt': "n' = n + length (filter (\<lambda>kg. send_succeeds w (fst kg) (snd kg)) (kg # G))"
      using cnt ok True by (simp add: ss)
    have el': "if \<exists>kg\<in>set (kg # G). send_succeeds w (fst kg) (snd kg)
                \<and> (\<exists>r\<in>set (snd kg). r_watch_ref r = Some j)
          then stamped w w' (ws ! j) (ws' ! j)
          else ws' ! j = ws ! j" if j: "j < length ws" for j
    proof -
      have here: "if \<exists>r\<in>set grp. r_watch_ref r = Some j
              then stamped w1 w2 (ws ! j) (ws1 ! j)
              else ws1 ! j = ws ! j"
        using el1 j by blast
      have later: "if \<exists>kg\<in>set G. send_succeeds w (fst kg) (snd kg)
                \<and> (\<exists>r\<in>set (snd kg). r_watch_ref r = Some j)
          then stamped w2 w' (ws1 ! j) (ws' ! j)
          else ws' ! j = ws1 ! j"
        using el j len1 by (simp add: ss)
      show ?thesis
      proof (cases "\<exists>kg\<in>set G. send_succeeds w (fst kg) (snd kg)
                \<and> (\<exists>r\<in>set (snd kg). r_watch_ref r = Some j)")
        case True
        with later have s: "stamped w2 w' (ws1 ! j) (ws' ! j)" by simp
        have "stamped w2 w' (ws ! j) (ws' ! j)"
        proof (cases "\<exists>r\<in>set grp. r_watch_ref r = Some j")
          case True
          with here have "stamped w1 w2 (ws ! j) (ws1 ! j)" by simp
          then obtain x where "ws1 ! j = (ws ! j)\<lparr>last_notified_at := x\<rparr>"
            unfolding stamped_def by blast
          with s show ?thesis by (rule stamped_over)
        next
          case False
          with here s show ?thesis by simp
        qed
        then have "stamped w w' (ws ! j) (ws' ! j)"
          using fr02 same_services_refl by (rule stamped_widen)
        with True show ?thesis by simp
      next
        case no: False
        with later have e: "ws' ! j = ws1 ! j" by simp
        show ?thesis
        proof (cases "\<exists>r\<in>set grp. r_watch_ref r = Some j")
          case True
          with here have "stamped w1 w2 (ws ! j) (ws1 ! j)" by simp
          then have "stamped w w' (ws ! j) (ws1 ! j)"
            using w1(1) fr by (rule stamped_widen)
          with True e ok \<open>b\<close> show ?thesis by (auto simp: kg)
        next
          case False
          with here e no show ?thesis by (auto simp: kg)
        qed
      qed
    qed
    show ?thesis using res len' fr' ob' cnt' el' by blast
  qed
qed

section \<open>The cycle\<close>

lemma update_product_price_world:
  "same_services w (snd (snd (update_product_price sales p w)))"
  "outbox (snd (snd (update_product_price sales p w))) = outbox w"
  by (simp_all add: update_product_price_def get_active_sale_def utcnow_def
      apply_random_fluctuation_def draw_percent_change_def random_def uniform_def
      same_services_def split_def split: option.splits)

lemma update_loop_world:
  "update_loop sales ps summary w = (ps', summary', w') \<Longrightarrow>
     same_services w w' \<and> outbox w' = outbox w"
proof (induction ps arbitrary: summary w ps' summary' w')
  case Nil
  then show ?case by (simp add: same_services_refl)
next
  case (Cons p ps)
  obtain p1 np is_sale w1 where u: "update_product_price sales p w = (p1, (np, is_sale), w1)"
    by (metis prod_cases3 surj_pair)
  have fr: "same_services w w1" "outbox w1 = outbox w"
    using update_product_price_world [where w = w and sales = sales and p = p] u by simp_all
  from Cons.prems u obtain s2 ps2 where "update_loop sales ps s2 w1 = (ps2, summary', w')"
    by (auto simp: Let_def split: prod.splits if_splits)
  from Cons.IH [OF this] fr show ?case
    by (auto intro: same_services_trans)
qed

lemma update_all_prices_world:
  assumes "update_all_prices d w = (summary, d', w')"
  shows "same_services w w'" "outbox w' = outbox w"
  using assms update_loop_world
  by (auto simp: update_all_prices_def Let_def split: prod.splits)

lemma watch_product_None_iff:
  "watch_product ps wt = None \<longleftrightarrow> watch_product_id wt \<notin> set (map product_id ps)"
  by (force simp: watch_product_def find_None_iff)

lemma update_all_prices_ids:
  assumes "update_all_prices d w = (summary, d', w')"
  shows "map product_id (products d') = map product_id (products d)"
proof (rule nth_equalityI)
  show "length (map product_id (products d')) = length (map product_id (products d))"
    using update_all_prices_updated(1) [OF assms] by simp
  fix i assume "i < length (map product_id (products d'))"
  then have i: "i < length (products d)"
    using update_all_prices_updated(1) [OF assms] by simp
  from update_all_prices_updated(3) [OF assms i]
  have "product_id (products d' ! i) = product_id (products d ! i)"
    by (simp add: price_updated_def)
  with i update_all_prices_updated(1) [OF assms]
  show "map product_id (products d') ! i = map product_id (products d) ! i" by simp
qed

lemma update_all_prices_watch_product:
  assumes "update_all_prices d w = (summary, d', w')"
  shows "watch_product (products d') wt = None \<longleftrightarrow> watch_product (products d) wt = None"
  unfolding watch_product_None_iff update_all_prices_ids [OF assms] ..

lemma run_price_check_ok:
  assumes integ: "\<forall>wt\<in>set (watches d). watch_product (products d) wt \<noteq> None"
  obtains summary d' w' rs where
    "run_price_check d w = (Inr summary, d', w')"
    "cycle_details summary = map (\<lambda>r. r\<lparr>r_watch_ref := None\<rparr>) rs"
    "length rs = length (watches d)"
    "\<forall>i<length (watches d). checked (products d') (watches d ! i) (rs ! i)
        \<and> r_watch_ref (rs ! i) = (if r_should_notify (rs ! i) then Some i else None)"
    "outbox w' = outbox w @ map call_of (add_groups (filter r_should_notify rs) [])"
    "length (watches d') = length (watches d)"
    "\<forall>j<length (watches d).
          if \<exists>kg\<in>set (add_groups (filter r_should_notify rs) []).
                send_succeeds w (fst kg) (snd kg)
                \<and> (\<exists>r\<in>set (snd kg). r_watch_ref r = Some j)
          then stamped w w' (watches d ! j) (watches d' ! j)
          else watches d' ! j = watches d ! j"
    "watches_checked summary = length (watches d)"
    "notifications_sent summary =
       length (filter (\<lambda>kg. send_succeeds w (fst kg) (snd kg))
                 (add_groups (filter r_should_notify rs) []))"
    "thresholds_met summary = length (filter r_threshold_met rs)"
    "same_services w w'"
proof -
  define w0 where "w0 = snd (utcnow w)"
  have fr0: "same_services w w0" "outbox w0 = outbox w"
    by (simp_all add: w0_def utcnow_def same_services_def)
  obtain psum d1 w1 where u: "update_all_prices d w0 = (psum, d1, w1)"
    by (metis prod_cases3)
  have ws1: "watches d1 = watches d"
    by (rule update_all_prices_updated(4) [OF u])
  have fr1: "same_services w0 w1" "outbox w1 = outbox w0"
    using update_all_prices_world [OF u] by simp_all
  have integ1: "\<forall>wt\<in>set (watches d1). watch_product (products d1) wt \<noteq> None"
    using integ update_all_prices_watch_product [OF u] ws1 by simp
  define G where "G rs = add_groups (filter r_should_notify rs) []" for rs
  from check_loop_ok [OF integ1, of 0 "[]" "[]" w1]
  obtain rs w2 where c: "check_loop (products d1) 0 (watches d1) [] [] w1 = (Inr (rs, G rs), w2)"
    and len: "length rs = length (watches d)"
    and el: "\<forall>k<length (watches d). checked (products d1) (watches d ! k) (rs ! k)
             \<and> r_watch_ref (rs ! k) = (if r_should_notify (rs ! k) then Some k else None)"
    and fr2: "same_services w1 w2" "outbox w2 = outbox w1"
    unfolding G_def ws1 by auto
  have grp: "\<forall>kg\<in>set (G rs). snd kg \<noteq> [] \<and> (\<forall>r\<in>set (snd kg). r_watch_ref r \<noteq> None)"
  proof (intro ballI conjI)
    fix kg assume kg: "kg \<in> set (G rs)"
    then have "(fst kg, snd kg) \<in> set (add_groups (filter r_should_notify rs) [])"
      by (simp add: G_def)
    then have "snd kg \<noteq> [] \<and>
      snd kg = filter (\<lambda>r. group_key r = fst kg) (filter r_should_notify rs)"
      unfolding add_groups_empty(2) .
    then have g: "snd kg \<noteq> []"
      "snd kg = filter (\<lambda>r. group_key r = fst kg) (filter r_should_notify rs)"
      by blast+
    show "snd kg \<noteq> []" by (rule g(1))
    fix r assume "r \<in> set (snd kg)"
    then have r: "r \<in> set rs" "r_should_notify r" using g(2) by simp_all
    then obtain k where "k < length rs" "rs ! k = r" by (auto simp: in_set_conv_nth)
    with el len r(2) show "r_watch_ref r \<noteq> None" by auto
  qed
  from dispatch_loop_ok [OF grp, of "watches d1" 0 w2]
  obtain sent ws' w3 where dl: "dispatch_loop (G rs) (watches d1) 0 w2 = (Inr sent, ws', w3)"
    and len': "length ws' = length (watches d)"
    and fr3: "same_services w2 w3"
    and ob3: "outbox w3 = outbox w2 @ map call_of (G rs)"
    and cnt: "sent = length (filter (\<lambda>kg. send_succeeds w2 (fst kg) (snd kg)) (G rs))"
    and st: "\<forall>j<length (watches d).
          if \<exists>kg\<in>set (G rs). send_succeeds w2 (fst kg) (snd kg)
                \<and> (\<exists>r\<in>set (snd kg). r_watch_ref r = Some j)
          then stamped w2 w3 (watches d ! j) (ws' ! j)
          else ws' ! j = watches d ! j"
    unfolding ws1 by auto
  define w4 where "w4 = snd (utcnow w3)"
  have fr4: "same_services w3 w4" "outbox w4 = outbox w3"
    by (simp_all add: w4_def utcnow_def same_services_def)
  define summary where "summary =
     \<lparr>timestamp = fst (utcnow w3), price_updates = psum,
       watches_checked = length (watches d1),
       thresholds_met = length (filter r_threshold_met (map (\<lambda>r. r\<lparr>r_watch_ref := None\<rparr>) rs)),
       notifications_sent = sent,
       cycle_details = map (\<lambda>r. r\<lparr>r_watch_ref := None\<rparr>) rs\<rparr>"
  have run: "run_price_check d w = (Inr summary, d1\<lparr>watches := ws'\<rparr>, w4)"
    using u c dl
    by (simp add: run_price_check_def w0_def [symmetric] split_def Let_def summary_def w4_def)
  have fr02: "same_services w w2"
    using fr0(1) fr1(1) fr2(1) by (blast intro: same_services_trans)
  have fr04: "same_services w w4"
    using fr02 fr3 fr4(1) by (blast intro: same_services_trans)
  have ss: "send_succeeds w2 = send_succeeds w"
    using send_succeeds_same_services [OF fr02] by (simp add: fun_eq_iff)
  have ob: "outbox w4 = outbox w @ map call_of (G rs)"
    using ob3 fr4(2) fr2(2) fr1(2) fr0(2) by simp
  have st': "\<forall>j<length (watches d).
          if \<exists>kg\<in>set (G rs). send_succeeds w (fst kg) (snd kg)
                \<and> (\<exists>r\<in>set (snd kg). r_watch_ref r = Some j)
          then stamped w w4 (watches d ! j) (watches (d1\<lparr>watches := ws'\<rparr>) ! j)
          else watches (d1\<lparr>watches := ws'\<rparr>) ! j = watches d ! j"
    using st stamped_widen [OF _ fr02 fr4(1)] unfolding ss by auto
  have tm: "thresholds_met summary = length (filter r_threshold_met rs)"
    by (simp add: summary_def filter_map comp_def)
  show thesis
    by (rule that [of summary "d1\<lparr>watches := ws'\<rparr>" w4 rs])
      (use run len el ob len' st' tm fr04 cnt ss in \<open>simp_all add: summary_def G_def ws1\<close>)
qed

lemma pop_ref_simps [simp]:
  "r_should_notify (pop_ref r) = r_should_notify r"
  "group_key (pop_ref r) = group_key r"
  "deal_of (pop_ref r) = deal_of r"
  "r_threshold_type (pop_ref r) = r_threshold_type r"
  "r_threshold_value (pop_ref r) = r_threshold_value r"
  "r_threshold_met (pop_ref r) = r_threshold_met r"
  "r_watch_id (pop_ref r) = r_watch_id r"
  "r_reason (pop_ref r) = r_reason r"
  by (simp_all add: pop_ref_def group_key_def deal_of_def)

lemma checked_pop_ref [simp]: "checked ps wt (pop_ref r) = checked ps wt r"
  by (simp add: pop_ref_def checked_def split: option.splits)

lemma send_succeeds_pop:
  "send_succeeds w k (map pop_ref grp) = send_succeeds w k grp"
  by (cases grp) (simp_all add: send_succeeds_def comp_def)

lemma filter_pop:
  "filter (\<lambda>x. r_should_notify x \<and> group_key x = k) (map pop_ref rs)
     = map pop_ref (filter (\<lambda>x. group_key x = k) (filter r_should_notify rs))"
  by (induction rs) auto

lemma group_hit_iff:
  assumes refs: "\<forall>i<length rs. r_watch_ref (rs ! i) = (if r_should_notify (rs ! i) then Some i else None)"
    and j: "j < length rs"
  shows "(\<exists>kg\<in>set (add_groups (filter r_should_notify rs) []).
            send_succeeds w (fst kg) (snd kg) \<and> (\<exists>r\<in>set (snd kg). r_watch_ref r = Some j))
         \<longleftrightarrow> r_should_notify (rs ! j)
              \<and> send_succeeds w (group_key (rs ! j))
                   (filter (\<lambda>x. group_key x = group_key (rs ! j)) (filter r_should_notify rs))"
    (is "?L \<longleftrightarrow> ?R")
proof
  assume ?L
  then obtain kg r where kg: "kg \<in> set (add_groups (filter r_should_notify rs) [])"
    and ok: "send_succeeds w (fst kg) (snd kg)"
    and r: "r \<in> set (snd kg)" "r_watch_ref r = Some j"
    by blast
  from kg have "(fst kg, snd kg) \<in> set (add_groups (filter r_should_notify rs) [])" by simp
  then have "snd kg \<noteq> [] \<and>
      snd kg = filter (\<lambda>r. group_key r = fst kg) (filter r_should_notify rs)"
    unfolding add_groups_empty(2) .
  then have g: "snd kg = filter (\<lambda>r. group_key r = fst kg) (filter r_should_notify rs)"
    by blast
  from r(1) g have r': "r \<in> set rs" "r_should_notify r" "group_key r = fst kg" by simp_all
  from r'(1) obtain k where k: "k < length rs" "rs ! k = r" by (auto simp: in_set_conv_nth)
  with refs r'(2) have "r_watch_ref r = Some k" by auto
  with r(2) have "k = j" by simp
  with k have "rs ! j = r" by simp
  with r' ok g show ?R by simp
next
  assume R: ?R
  let ?k = "group_key (rs ! j)"
  let ?grp = "filter (\<lambda>x. group_key x = ?k) (filter r_should_notify rs)"
  have mem: "rs ! j \<in> set ?grp" using R j by simp
  then have ne: "?grp \<noteq> []" by (auto simp: filter_empty_conv)
  have "(?k, ?grp) \<in> set (add_groups (filter r_should_notify rs) [])"
    unfolding add_groups_empty(2) using ne by simp
  moreover have "r_watch_ref (rs ! j) = Some j" using refs j R by simp
  ultimately show ?L using R mem by force
qed

lemma group_call_unique:
  assumes "r \<in> set rs" "r_should_notify r"
  shows "filter (\<lambda>c. (call_email c, call_product_name c) = group_key r)
           (map call_of (add_groups (filter r_should_notify rs) []))
         = [call_of (group_key r,
              filter (\<lambda>x. group_key x = group_key r) (filter r_should_notify rs))]"
proof -
  let ?G = "add_groups (filter r_should_notify rs) []"
  let ?k = "group_key r"
  let ?grp = "filter (\<lambda>x. group_key x = ?k) (filter r_should_notify rs)"
  have ne: "?grp \<noteq> []" using assms by (auto simp: filter_empty_conv)
  have mem: "(?k, ?grp) \<in> set ?G"
    unfolding add_groups_empty(2) using ne by simp
  have d: "distinct (map fst ?G)" by (rule add_groups_empty(1))
  have one: "filter (\<lambda>kg. fst kg = k) G = [(k, grp)]"
    if "distinct (map fst G)" "(k, grp) \<in> set G" for G :: groups and k grp
    using that by (induction G) (auto simp: filter_empty_conv rev_image_eqI)
  have "filter (\<lambda>c. (call_email c, call_product_name c) = ?k) (map call_of ?G)
        = map call_of (filter (\<lambda>kg. fst kg = ?k) ?G)"
    by (simp add: filter_map comp_def call_of_def)
  also have "\<dots> = [call_of (?k, ?grp)]"
    using one [OF d mem] by simp
  finally show ?thesis .
qed

lemma run_price_check_raises:
  assumes "\<exists>wt\<in>set (watches d). watch_product (products d) wt = None"
  shows "fst (run_price_check d w) = Inl AttributeError"
proof -
  obtain psum d1 w1 where u: "update_all_prices d (snd (utcnow w)) = (psum, d1, w1)"
    by (metis prod_cases3)
  have ws1: "watches d1 = watches d"
    by (rule update_all_prices_updated(4) [OF u])
  have "\<exists>wt\<in>set (watches d1). watch_product (products d1) wt = None"
    using assms update_all_prices_watch_product [OF u] ws1 by simp
  from check_loop_fail [OF this, of 0 "[]" "[]" w1]
  obtain w2 where "check_loop (products d1) 0 (watches d1) [] [] w1 = (Inl AttributeError, w2)"
    by blast
  with u show ?thesis
    by (simp add: run_price_check_def split_def)
qed

lemma headline_is_cheapest:
  assumes "deals \<noteq> []"
  shows "deal_current_price (hd (sort_key deal_current_price deals))
           = Min (deal_current_price ` set deals)"
proof -
  let ?ys = "sort_key deal_current_price deals"
  have "?ys \<noteq> []" using assms by (metis length_sort length_0_conv)
  then obtain y ys where ys: "?ys = y # ys" by (cases ?ys) auto
  have "sorted (map deal_current_price ?ys)" by (rule sorted_sort_key)
  then have le: "\<forall>z\<in>set ys. deal_current_price y \<le> deal_current_price z"
    unfolding ys by simp
  have s: "set deals = insert y (set ys)"
    using ys by (metis list.simps(15) set_sort)
  have "Min (deal_current_price ` set deals) = deal_current_price y"
    by (rule Min_eqI) (use le s in auto)
  then show ?thesis by (simp add: ys)
qed

section \<open>The example cycle\<close>

lemmas demo_defs = demo_db_def demo_products_def demo_watches_def demo_sales_def
  demo_world_def demo_world_live_def demo_clock_def demo_rand_def demo_sg_send_def

lemmas engine_defs = update_all_prices_def update_product_price_def get_active_sale_def
  utcnow_def apply_random_fluctuation_def draw_percent_change_def random_def uniform_def
  FLUCTUATION_CONFIG_def clamped_price_def py_round_def round_half_even_def
  discount_percent_def

lemmas checker_defs = run_price_check_def check_watch_def watch_product_def threshold_met_def
  is_cooldown_expired_def send_multi_retailer_notification_def build_multi_retailer_email_def
  deal_of_def

lemma demo_live_summary:
  "fst (run_price_check demo_db demo_world_live) =
     Inr \<lparr>timestamp = 509,
        price_updates =
          \<lparr>total = 3, sale_events_count = 1, random_fluctuations = 2,
             details =
               [\<lparr>upd_product_id = 1, upd_name = ''PlayStation 5'',
                   upd_old_price = 450, upd_new_price = 200,
                   upd_is_sale_event = True, upd_discount_percent = 60\<rparr>,
                \<lparr>upd_product_id = 2, upd_name = ''PlayStation 5'',
                   upd_old_price = 400, upd_new_price = 340,
                   upd_is_sale_event = False, upd_discount_percent = 32\<rparr>,
                \<lparr>upd_product_id = 3, upd_name = ''AirPods'',
                   upd_old_price = 200, upd_new_price = 170,
                   upd_is_sale_event = False, upd_discount_percent = 15\<rparr>]\<rparr>,
        watches_checked = 3, thresholds_met = 3, notifications_sent = 1,
        cycle_details =
          [\<lparr>r_watch_id = 1, r_email = ''bob@example.com'',
              r_product_name = ''AirPods'', r_product_price = 170,
              r_product_base_price = 200, r_retailer = ''BestBuy'',
              r_discount_percent = 15, r_threshold_type = ''percent'',
              r_threshold_value = 10, r_threshold_met = True,
              r_cooldown_expired = True, r_should_notify = True,
              r_reason = ReadyToNotify, r_watch_ref = None\<rparr>,
           \<lparr>r_watch_id = 2, r_email = ''ann@example.com'',
              r_product_name = ''PlayStation 5'', r_product_price = 340,
              r_product_base_price = 500, r_retailer = ''Target'',
              r_discount_percent = 32, r_threshold_type = ''absolute'',
              r_threshold_value = 350, r_threshold_met = True,
              r_cooldown_expired = True, r_should_notify = True,
              r_reason = ReadyToNotify, r_watch_ref = None\<rparr>,
           \<lparr>r_watch_id = 3, r_email = ''ann@example.com'',
              r_product_name = ''PlayStation 5'', r_product_price = 200,
              r_product_base_price = 500, r_retailer = ''Walmart'',
              r_discount_percent = 60, r_threshold_type = ''absolute'',
              r_threshold_value = 350, r_threshold_met = True,
              r_cooldown_expired = True, r_should_notify = True,
              r_reason = ReadyToNotify, r_watch_ref = None\<rparr>]\<rparr>"
  by (simp add: demo_defs engine_defs checker_defs Let_def)

lemma demo_integrity:
  "\<forall>wt\<in>set (watches demo_db). watch_product (products demo_db) wt \<noteq> None"
  by (simp add: demo_defs watch_product_def)

lemma demo_dangling:
  "\<exists>wt\<in>set (watches demo_dangling_db). watch_product (products demo_dangling_db) wt = None"
  by (simp add: demo_dangling_db_def demo_defs watch_product_def)

lemma demo_live_details:
  assumes "run_price_check demo_db demo_world_live = (Inr summary, d', w')"
  shows "cycle_details summary =
          [\<lparr>r_watch_id = 1, r_email = ''bob@example.com'',
              r_product_name = ''AirPods'', r_product_price = 170,
              r_product_base_price = 200, r_retailer = ''BestBuy'',
              r_discount_percent = 15, r_threshold_type = ''percent'',
              r_threshold_value = 10, r_threshold_met = True,
              r_cooldown_expired = True, r_should_notify = True,
              r_reason = ReadyToNotify, r_watch_ref = None\<rparr>,
           \<lparr>r_watch_id = 2, r_email = ''ann@example.com'',
              r_product_name = ''PlayStation 5'', r_product_price = 340,
              r_product_base_price = 500, r_retailer = ''Target'',
              r_discount_percent = 32, r_threshold_type = ''absolute'',
              r_threshold_value = 350, r_threshold_met = True,
              r_cooldown_expired = True, r_should_notify = True,
              r_reason = ReadyToNotify, r_watch_ref = None\<rparr>,
           \<lparr>r_watch_id = 3, r_email = ''ann@example.com'',
              r_product_name = ''PlayStation 5'', r_product_price = 200,
              r_product_base_price = 500, r_retailer = ''Walmart'',
              r_discount_percent = 60, r_threshold_type = ''absolute'',
              r_threshold_value = 350, r_threshold_met = True,
              r_cooldown_expired = True, r_should_notify = True,
              r_reason = ReadyToNotify, r_watch_ref = None\<rparr>]"
    and "watches_checked summary = 3"
proof -
  have s: "fst (run_price_check demo_db demo_world_live) = Inr summary" using assms by simp
  show "cycle_details summary =
          [\<lparr>r_watch_id = 1, r_email = ''bob@example.com'',
              r_product_name = ''AirPods'', r_product_price = 170,
              r_product_base_price = 200, r_retailer = ''BestBuy'',
              r_discount_percent = 15, r_threshold_type = ''percent'',
              r_threshold_value = 10, r_threshold_met = True,
              r_cooldown_expired = True, r_should_notify = True,
              r_reason = ReadyToNotify, r_watch_ref = None\<rparr>,
           \<lparr>r_watch_id = 2, r_email = ''ann@example.com'',
              r_product_name = ''PlayStation 5'', r_product_price = 340,
              r_product_base_price = 500, r_retailer = ''Target'',
              r_discount_percent = 32, r_threshold_type = ''absolute'',
              r_threshold_value = 350, r_threshold_met = True,
              r_cooldown_expired = True, r_should_notify = True,
              r_reason = ReadyToNotify, r_watch_ref = None\<rparr>,
           \<lparr>r_watch_id = 3, r_email = ''ann@example.com'',
              r_product_name = ''PlayStation 5'', r_product_price = 200,
              r_product_base_price = 500, r_retailer = ''Walmart'',
              r_discount_percent = 60, r_threshold_type = ''absolute'',
              r_threshold_value = 350, r_threshold_met = True,
              r_cooldown_expired = True, r_should_notify = True,
              r_reason = ReadyToNotify, r_watch_ref = None\<rparr>]"
    using s unfolding demo_live_summary by auto
  show "watches_checked summary = 3"
    using s unfolding demo_live_summary by auto
qed

section \<open>Grouping, failure isolation and the cycle boundary\<close>



text \<open>
  C6. In a cycle over a store whose watches all refer to existing products, the cycle
  returns a summary whatever the notifier does. A watch whose diagnostic is ready to
  notify and whose group was sent successfully is stamped: only \<^verbatim>\<open>last_notified_at\<close>
  changes, to a clock reading of this cycle. Every other watch is left as it was, in
  particular every watch of a group whose send failed; a failed group does not keep the
  other groups from being sent and stamped.
\<close>

theorem failure_isolation:
  assumes "\<forall>wt\<in>set (watches d). watch_product (products d) wt \<noteq> None"
  shows "\<exists>summary d' w'. run_price_check d w = (Inr summary, d', w')
     \<and> length (watches d') = length (watches d)
     \<and> length (cycle_details summary) = length (watches d)
     \<and> (\<forall>i<length (watches d).
          let r = cycle_details summary ! i;
              grp = filter (\<lambda>x. r_should_notify x \<and> group_key x = group_key r)
                      (cycle_details summary)
          in if r_should_notify r \<and> send_succeeds w (group_key r) grp
             then stamped w w' (watches d ! i) (watches d' ! i)
             else watches d' ! i = watches d ! i)"
proof -
  from assms obtain summary d' w' rs where
    run: "run_price_check d w = (Inr summary, d', w')"
    and det: "cycle_details summary = map (\<lambda>r. r\<lparr>r_watch_ref := None\<rparr>) rs"
    and len: "length rs = length (watches d)"
    and el: "\<forall>i<length (watches d). checked (products d') (watches d ! i) (rs ! i)
        \<and> r_watch_ref (rs ! i) = (if r_should_notify (rs ! i) then Some i else None)"
    and len': "length (watches d') = length (watches d)"
    and st: "\<forall>j<length (watches d).
          if \<exists>kg\<in>set (add_groups (filter r_should_notify rs) []).
                send_succeeds w (fst kg) (snd kg)
                \<and> (\<exists>r\<in>set (snd kg). r_watch_ref r = Some j)
          then stamped w w' (watches d ! j) (watches d' ! j)
          else watches d' ! j = watches d ! j"
    by (rule run_price_check_ok [of d w]) blast
  have det': "cycle_details summary = map pop_ref rs"
    using det by (simp add: pop_ref_def [abs_def])
  have refs: "\<forall>i<length rs. r_watch_ref (rs ! i) = (if r_should_notify (rs ! i) then Some i else None)"
    using el len by simp
  have main: "if r_should_notify (map pop_ref rs ! i)
           \<and> send_succeeds w (group_key (map pop_ref rs ! i))
                (filter (\<lambda>x. r_should_notify x \<and> group_key x = group_key (map pop_ref rs ! i))
                   (map pop_ref rs))
        then stamped w w' (watches d ! i) (watches d' ! i)
        else watches d' ! i = watches d ! i"
    if i: "i < length (watches d)" for i
  proof -
    have i': "i < length rs" using i len by simp
    have "map pop_ref rs ! i = pop_ref (rs ! i)" using i' by simp
    then show ?thesis
      using st i group_hit_iff [OF refs i', of w]
      by (simp add: filter_pop send_succeeds_pop)
  qed
  show ?thesis
  proof (intro exI conjI)
    show "run_price_check d w = (Inr summary, d', w')" by (rule run)
    show "length (watches d') = length (watches d)" by (rule len')
    show "length (cycle_details summary) = length (watches d)" using len by (simp add: det')
    show "\<forall>i<length (watches d).
          let r = cycle_details summary ! i;
              grp = filter (\<lambda>x. r_should_notify x \<and> group_key x = group_key r)
                      (cycle_details summary)
          in if r_should_notify r \<and> send_succeeds w (group_key r) grp
             then stamped w w' (watches d ! i) (watches d' ! i)
             else watches d' ! i = watches d ! i"
      unfolding det' Let_def using main by blast
  qed
qed

theorem failure_isolation_witness:
  "watches (fst (snd (run_price_check demo_db demo_world_live))) ! 0 = watches demo_db ! 0
   \<and> stamped demo_world_live (snd (snd (run_price_check demo_db demo_world_live)))
        (watches demo_db ! 1) (watches (fst (snd (run_price_check demo_db demo_world_live))) ! 1)"
proof -
  from failure_isolation [OF demo_integrity, of demo_world_live]
  obtain summary d' w' where run: "run_price_check demo_db demo_world_live = (Inr summary, d', w')"
    and el: "\<forall>i<length (watches demo_db).
          let r = cycle_details summary ! i;
              grp = filter (\<lambda>x. r_should_notify x \<and> group_key x = group_key r)
                      (cycle_details summary)
          in if r_should_notify r \<and> send_succeeds demo_world_live (group_key r) grp
             then stamped demo_world_live w' (watches demo_db ! i) (watches d' ! i)
             else watches d' ! i = watches demo_db ! i"
    by blast
  have s: "fst (run_price_check demo_db demo_world_live) = Inr summary" using run by simp
  have det: "cycle_details summary =
          [\<lparr>r_watch_id = 1, r_email = ''bob@example.com'',
              r_product_name = ''AirPods'', r_product_price = 170,
              r_product_base_price = 200, r_retailer = ''BestBuy'',
              r_discount_percent = 15, r_threshold_type = ''percent'',
              r_threshold_value = 10, r_threshold_met = True,
              r_cooldown_expired = True, r_should_notify = True,
              r_reason = ReadyToNotify, r_watch_ref = None\<rparr>,
           \<lparr>r_watch_id = 2, r_email = ''ann@example.com'',
              r_product_name = ''PlayStation 5'', r_product_price = 340,
              r_product_base_price = 500, r_retailer = ''Target'',
              r_discount_percent = 32, r_threshold_type = ''absolute'',
              r_threshold_value = 350, r_threshold_met = True,
              r_cooldown_expired = True, r_should_notify = True,
              r_reason = ReadyToNotify, r_watch_ref = None\<rparr>,
           \<lparr>r_watch_id = 3, r_email = ''ann@example.com'',
              r_product_name = ''PlayStation 5'', r_product_price = 200,
              r_product_base_price = 500, r_retailer = ''Walmart'',
              r_discount_percent = 60, r_threshold_type = ''absolute'',
              r_threshold_value = 350, r_threshold_met = True,
              r_cooldown_expired = True, r_should_notify = True,
              r_reason = ReadyToNotify, r_watch_ref = None\<rparr>]"
    using s unfolding demo_live_summary by auto
  have l: "length (watches demo_db) = 3" by (simp add: demo_defs)
  have i0: "0 < length (watches demo_db)" and i1: "1 < length (watches demo_db)"
    using l by simp_all
  note 0 = el [rule_format, OF i0] and 1 = el [rule_format, OF i1]
  have a: "watches d' ! 0 = watches demo_db ! 0"
    using 0 unfolding det
    by (simp add: Let_def group_key_def send_succeeds_def checker_defs
        demo_world_live_def demo_world_def demo_sg_send_def)
  have b: "stamped demo_world_live w' (watches demo_db ! 1) (watches d' ! 1)"
    using 1 unfolding det
    by (simp add: Let_def group_key_def send_succeeds_def checker_defs
        demo_world_live_def demo_world_def demo_sg_send_def)
  show ?thesis using demo_integrity a b by (simp add: run)
qed

text \<open>
  C7, as the specification states it: a watch that refers to a missing product would be
  skipped with a diagnostic and the cycle would still return a summary. In the example
  the cycle raises \<^verbatim>\<open>AttributeError\<close> instead.
\<close>

theorem cycle_missing_product_counterexample:
  "fst (run_price_check demo_dangling_db demo_world) = Inl AttributeError"
  by (simp add: demo_dangling_db_def demo_defs engine_defs checker_defs Let_def)

text \<open>
  C7, amended. When every watch refers to an existing product, the cycle returns a
  summary that counts every watch and holds one diagnostic per watch, in order, each with
  a reason. When some watch refers to a missing product, \<^verbatim>\<open>check_watch\<close> raises
  \<^verbatim>\<open>AttributeError\<close> and the cycle passes it on.
\<close>

theorem cycle_summary_or_raise:
  "((\<forall>wt\<in>set (watches d). watch_product (products d) wt \<noteq> None) \<longrightarrow>
      (\<exists>summary d' w'. run_price_check d w = (Inr summary, d', w')
         \<and> watches_checked summary = length (watches d)
         \<and> length (cycle_details summary) = length (watches d)
         \<and> (\<forall>i<length (watches d).
               checked (products d') (watches d ! i) (cycle_details summary ! i)
               \<and> r_reason (cycle_details summary ! i) \<noteq> NoReason)))
   \<and> ((\<exists>wt\<in>set (watches d). watch_product (products d) wt = None) \<longrightarrow>
         fst (run_price_check d w) = Inl AttributeError)"
proof (intro conjI impI)
  assume "\<exists>wt\<in>set (watches d). watch_product (products d) wt = None"
  then show "fst (run_price_check d w) = Inl AttributeError"
    by (rule run_price_check_raises)
next
  assume "\<forall>wt\<in>set (watches d). watch_product (products d) wt \<noteq> None"
  then obtain summary d' w' rs where
    run: "run_price_check d w = (Inr summary, d', w')"
    and det: "cycle_details summary = map (\<lambda>r. r\<lparr>r_watch_ref := None\<rparr>) rs"
    and len: "length rs = length (watches d)"
    and el: "\<forall>i<length (watches d). checked (products d') (watches d ! i) (rs ! i)
        \<and> r_watch_ref (rs ! i) = (if r_should_notify (rs ! i) then Some i else None)"
    and wc: "watches_checked summary = length (watches d)"
    by (rule run_price_check_ok [of d w]) blast
  have det': "cycle_details summary = map pop_ref rs"
    using det by (simp add: pop_ref_def [abs_def])
  have c: "checked (products d') (watches d ! i) (map pop_ref rs ! i)
           \<and> r_reason (map pop_ref rs ! i) \<noteq> NoReason"
    if i: "i < length (watches d)" for i
  proof -
    have ch: "checked (products d') (watches d ! i) (rs ! i)" using el i by blast
    then have "r_reason (rs ! i) \<noteq> NoReason"
      by (auto simp: checked_def split: option.splits if_splits)
    with ch i len show ?thesis by simp
  qed
  show "\<exists>summary d' w'. run_price_check d w = (Inr summary, d', w')
         \<and> watches_checked summary = length (watches d)
         \<and> length (cycle_details summary) = length (watches d)
         \<and> (\<forall>i<length (watches d).
               checked (products d') (watches d ! i) (cycle_details summary ! i)
               \<and> r_reason (cycle_details summary ! i) \<noteq> NoReason)"
  proof (intro exI conjI)
    show "run_price_check d w = (Inr summary, d', w')" by (rule run)
    show "watches_checked summary = length (watches d)" by (rule wc)
    show "length (cycle_details summary) = length (watches d)" using len by (simp add: det')
    show "\<forall>i<length (watches d).
               checked (products d') (watches d ! i) (cycle_details summary ! i)
               \<and> r_reason (cycle_details summary ! i) \<noteq> NoReason"
      unfolding det' using c by blast
  qed
qed

theorem cycle_summary_or_raise_witness:
  "(\<exists>summary. fst (run_price_check demo_db demo_world_live) = Inr summary
         \<and> watches_checked summary = 3
         \<and> r_reason (cycle_details summary ! 0) = ReadyToNotify)
   \<and> (\<exists>wt\<in>set (watches demo_dangling_db).
         watch_product (products demo_dangling_db) wt = None)
   \<and> fst (run_price_check demo_dangling_db demo_world_live) = Inl AttributeError"
proof -
  from cycle_summary_or_raise [of demo_db demo_world_live] demo_integrity
  obtain summary d' w' where
    run: "run_price_check demo_db demo_world_live = (Inr summary, d', w')"
    and el: "\<forall>i<length (watches demo_db).
               checked (products d') (watches demo_db ! i) (cycle_details summary ! i)
               \<and> r_reason (cycle_details summary ! i) \<noteq> NoReason"
    by blast
  have i0: "0 < length (watches demo_db)" by (simp add: demo_defs)
  have a: "r_reason (cycle_details summary ! 0) = ReadyToNotify"
    unfolding demo_live_details(1) [OF run] by simp
  have b: "fst (run_price_check demo_dangling_db demo_world_live) = Inl AttributeError"
    using cycle_summary_or_raise [of demo_dangling_db demo_world_live] demo_dangling by blast
  show ?thesis
    using demo_integrity demo_dangling a b demo_live_details(2) [OF run] by (auto simp: run)
qed

section \<open>Checking the watches of one product\<close>

lemma check_each_world:
  "outbox (snd (check_each ps iws results w)) = outbox w"
proof (induction iws arbitrary: results w)
  case Nil
  then show ?case by simp
next
  case (Cons iw iws)
  obtain i wt where iw: "iw = (i, wt)" by (cases iw)
  show ?case
  proof (cases "watch_product ps wt")
    case None
    then show ?thesis by (simp add: iw check_watch_None)
  next
    case (Some p)
    then obtain r w1 where c: "check_watch ps i wt w = (Inr r, w1)" and o: "outbox w1 = outbox w"
      by (rule check_watch_Some)
    show ?thesis using Cons.IH [of "results @ [r]" w1] c o by (simp add: iw)
  qed
qed

lemma check_each_fail:
  "\<exists>iw\<in>set iws. watch_product ps (snd iw) = None \<Longrightarrow>
     fst (check_each ps iws results w) = Inl AttributeError"
proof (induction iws arbitrary: results w)
  case Nil
  then show ?case by simp
next
  case (Cons iw iws)
  obtain i wt where iw: "iw = (i, wt)" by (cases iw)
  show ?case
  proof (cases "watch_product ps wt")
    case None
    then show ?thesis by (simp add: iw check_watch_None)
  next
    case (Some p)
    then obtain r w1 where c: "check_watch ps i wt w = (Inr r, w1)"
      by (rule check_watch_Some)
    from Some Cons.prems iw have "\<exists>iw\<in>set iws. watch_product ps (snd iw) = None" by auto
    from Cons.IH [OF this, of "results @ [r]" w1] show ?thesis using c by (simp add: iw)
  qed
qed

lemma check_each_ok:
  "\<forall>iw\<in>set iws. watch_product ps (snd iw) \<noteq> None \<Longrightarrow>
     \<exists>new. fst (check_each ps iws results w) = Inr (results @ new)
       \<and> list_all2 (checked ps) (map snd iws) new"
proof (induction iws arbitrary: results w)
  case Nil
  then show ?case by simp
next
  case (Cons iw iws)
  obtain i wt where iw: "iw = (i, wt)" by (cases iw)
  from Cons.prems iw obtain p where "watch_product ps wt = Some p" by auto
  then obtain r w1 where c: "check_watch ps i wt w = (Inr r, w1)" and r: "checked ps wt r"
    by (rule check_watch_Some)
  from Cons.prems have "\<forall>iw\<in>set iws. watch_product ps (snd iw) \<noteq> None" by simp
  from Cons.IH [OF this, of "results @ [r]" w1] obtain new where
    n: "fst (check_each ps iws (results @ [r]) w1) = Inr ((results @ [r]) @ new)"
       "list_all2 (checked ps) (map snd iws) new"
    by blast
  show ?case
    by (rule exI [of _ "r # new"]) (use c r n in \<open>simp add: iw\<close>)
qed

lemma filter_enumerate_snd:
  "map snd (filter (\<lambda>(i, x). P x) (enumerate n xs)) = filter P xs"
  by (induction xs arbitrary: n) auto

text \<open>
  C9, as the specification states it: for every product id the function would return a
  list of diagnostics. In the example a watch on product 99 refers to a missing product
  and the function raises \<^verbatim>\<open>AttributeError\<close>.
\<close>

theorem check_single_product_raises_counterexample:
  "fst (check_single_product demo_dangling_db 99 demo_world) = Inl AttributeError"
  by (simp add: check_single_product_def demo_dangling_db_def demo_defs checker_defs
      enumerate_eq_zip Let_def)

text \<open>
  C9, amended. For every product id, \<^verbatim>\<open>check_single_product\<close> leaves the store as it
  was and calls no notifier, whether it returns or raises. It returns one diagnostic per
  watch on that product, in query order, when all these watches refer to an existing
  product, and raises \<^verbatim>\<open>AttributeError\<close> when one of them refers to a missing product.
\<close>

theorem check_single_product_read_only:
  "fst (snd (check_single_product d pid w)) = d
   \<and> outbox (snd (snd (check_single_product d pid w))) = outbox w
   \<and> ((\<forall>wt\<in>set (watches d). watch_product_id wt = pid \<longrightarrow>
          watch_product (products d) wt \<noteq> None) \<longrightarrow>
        (\<exists>rs. fst (check_single_product d pid w) = Inr rs
           \<and> list_all2 (checked (products d))
                (filter (\<lambda>wt. watch_product_id wt = pid) (watches d)) rs))
   \<and> ((\<exists>wt\<in>set (watches d). watch_product_id wt = pid
          \<and> watch_product (products d) wt = None) \<longrightarrow>
        fst (check_single_product d pid w) = Inl AttributeError)"
proof -
  define iws where
    "iws = filter (\<lambda>(i, wt). watch_product_id wt = pid) (enumerate 0 (watches d))"
  have sel: "map snd iws = filter (\<lambda>wt. watch_product_id wt = pid) (watches d)"
    unfolding iws_def by (rule filter_enumerate_snd)
  have cs: "check_single_product d pid w =
              (fst (check_each (products d) iws [] w), d, snd (check_each (products d) iws [] w))"
    by (simp add: check_single_product_def iws_def split_def Let_def)
  have 1: "fst (snd (check_single_product d pid w)) = d" by (simp add: cs)
  have 2: "outbox (snd (snd (check_single_product d pid w))) = outbox w"
    by (simp add: cs check_each_world)
  have 3: "\<exists>rs. fst (check_single_product d pid w) = Inr rs
           \<and> list_all2 (checked (products d))
                (filter (\<lambda>wt. watch_product_id wt = pid) (watches d)) rs"
    if "\<forall>wt\<in>set (watches d). watch_product_id wt = pid \<longrightarrow>
          watch_product (products d) wt \<noteq> None"
  proof -
    have "\<forall>wt\<in>set (map snd iws). watch_product (products d) wt \<noteq> None"
      unfolding sel using that by simp
    then have "\<forall>iw\<in>set iws. watch_product (products d) (snd iw) \<noteq> None" by simp
    from check_each_ok [OF this, of "[]" w] show ?thesis
      unfolding sel by (simp add: cs)
  qed
  have 4: "fst (check_single_product d pid w) = Inl AttributeError"
    if "\<exists>wt\<in>set (watches d). watch_product_id wt = pid
          \<and> watch_product (products d) wt = None"
  proof -
    have "\<exists>wt\<in>set (map snd iws). watch_product (products d) wt = None"
      unfolding sel using that by auto
    then have "\<exists>iw\<in>set iws. watch_product (products d) (snd iw) = None" by auto
    from check_each_fail [OF this, of "[]" w] show ?thesis by (simp add: cs)
  qed
  show ?thesis using 1 2 3 4 by blast
qed

theorem check_single_product_read_only_witness:
  "fst (snd (check_single_product demo_db 3 demo_world)) = demo_db
   \<and> (\<exists>r. fst (check_single_product demo_db 3 demo_world) = Inr [r] \<and> r_watch_id r = 1)
   \<and> (\<exists>wt\<in>set (watches demo_dangling_db). watch_product_id wt = 99
         \<and> watch_product (products demo_dangling_db) wt = None)
   \<and> fst (check_single_product demo_dangling_db 99 demo_world) = Inl AttributeError
   \<and> fst (snd (check_single_product demo_dangling_db 99 demo_world)) = demo_dangling_db"
proof -
  have h1: "\<forall>wt\<in>set (watches demo_db). watch_product_id wt = 3 \<longrightarrow>
        watch_product (products demo_db) wt \<noteq> None"
    using demo_integrity by blast
  have h2: "\<exists>wt\<in>set (watches demo_dangling_db). watch_product_id wt = 99
         \<and> watch_product (products demo_dangling_db) wt = None"
    by (simp add: demo_dangling_db_def demo_defs watch_product_def)
  have f: "filter (\<lambda>wt. watch_product_id wt = 3) (watches demo_db) = [demo_watches ! 0]"
    by (simp add: demo_defs)
  from check_single_product_read_only [of demo_db 3 demo_world] h1
  obtain rs where st: "fst (snd (check_single_product demo_db 3 demo_world)) = demo_db"
    and rs: "fst (check_single_product demo_db 3 demo_world) = Inr rs"
    and ch: "list_all2 (checked (products demo_db))
                (filter (\<lambda>wt. watch_product_id wt = 3) (watches demo_db)) rs"
    by blast
  from ch obtain r where r: "rs = [r]" "checked (products demo_db) (demo_watches ! 0) r"
    unfolding f by (auto simp: list_all2_Cons1)
  have id: "r_watch_id r = 1"
    using r(2) by (auto simp: checked_def demo_defs split: option.splits)
  from check_single_product_read_only [of demo_dangling_db 99 demo_world] h2
  have d: "fst (check_single_product demo_dangling_db 99 demo_world) = Inl AttributeError"
    "fst (snd (check_single_product demo_dangling_db 99 demo_world)) = demo_dangling_db"
    by blast+
  show ?thesis using h1 h2 st rs r(1) id d by simp
qed

end
